theory Spec2Isabelle
  imports Main "HOL-Library.Sublist"
begin

section \<open>Python strings\<close>

text \<open>
  The repository is Python; its \<^verbatim>\<open>str\<close> values are modelled as \<^typ>\<open>string\<close>, each
  \<^typ>\<open>char\<close> standing for the code point of the same number (0 to 255). On these code
  points \<^verbatim>\<open>str.isspace\<close> holds for 9 to 13, 28 to 32, 133 and 160, and
  \<^verbatim>\<open>str.lower\<close> adds 32 to the upper-case letters (65 to 90, and 192 to 222 without 215)
  and keeps every other character.
\<close>

definition py_isspace :: "char \<Rightarrow> bool" where
  "py_isspace c = (let n = (of_char c :: nat) in
     (9 \<le> n \<and> n \<le> 13) \<or> (28 \<le> n \<and> n \<le> 32) \<or> n = 133 \<or> n = 160)"

definition py_isupper :: "char \<Rightarrow> bool" where
  "py_isupper c = (let n = (of_char c :: nat) in
     (65 \<le> n \<and> n \<le> 90) \<or> (192 \<le> n \<and> n \<le> 222 \<and> n \<noteq> 215))"

definition lower_char :: "char \<Rightarrow> char" where
  "lower_char c = (if py_isupper c then char_of (of_char c + (32::nat)) else c)"

text \<open>\<^verbatim>\<open>s.lower()\<close>\<close>

definition py_lower :: "string \<Rightarrow> string" where
  "py_lower s = map lower_char s"

text \<open>\<^verbatim>\<open>s.strip(chars)\<close> removes the characters of \<open>chars\<close> from both ends of \<open>s\<close>.\<close>

definition py_strip_chars :: "string \<Rightarrow> string \<Rightarrow> string" where
  "py_strip_chars chars s =
     rev (dropWhile (\<lambda>c. c \<in> set chars) (rev (dropWhile (\<lambda>c. c \<in> set chars) s)))"

text \<open>\<^verbatim>\<open>s.strip()\<close> removes white space from both ends.\<close>

definition py_strip :: "string \<Rightarrow> string" where
  "py_strip s = rev (dropWhile py_isspace (rev (dropWhile py_isspace s)))"

text \<open>
  \<^verbatim>\<open>s.split()\<close>: the maximal runs of characters that are not white space, in order.
  \<open>split_acc w s\<close> scans \<open>s\<close> with the word read so far in \<open>w\<close>.
\<close>

fun split_acc :: "string \<Rightarrow> string \<Rightarrow> string list" where
  "split_acc w [] = (if w = [] then [] else [w])"
| "split_acc w (c # cs) =
     (if py_isspace c then (if w = [] then split_acc [] cs else w # split_acc [] cs)
      else split_acc (w @ [c]) cs)"

definition py_split :: "string \<Rightarrow> string list" where
  "py_split s = split_acc [] s"

text \<open>\<^verbatim>\<open>kw in text\<close> on strings: \<open>kw\<close> occurs in \<open>text\<close> as a contiguous piece.\<close>

definition py_in :: "string \<Rightarrow> string \<Rightarrow> bool" where
  "py_in kw text = sublist kw text"

text \<open>\<^verbatim>\<open>any(kw in text for kw in kws)\<close>\<close>

definition any_in :: "string list \<Rightarrow> string \<Rightarrow> bool" where
  "any_in kws text = list_ex (\<lambda>kw. py_in kw text) kws"

text \<open>\<^verbatim>\<open>s.replace(".", "")\<close>\<close>

definition remove_dots :: "string \<Rightarrow> string" where
  "remove_dots s = filter (\<lambda>c. c \<noteq> CHR ''.'') s"

section \<open>Values, errors and the files of the store\<close>

text \<open>
  What \<^verbatim>\<open>json.loads\<close> returns. A JSON object is a Python dict, modelled as a map from
  keys to values; numbers are integers here (nothing below reads a number).
\<close>

datatype json =
    JNull
  | JBool bool
  | JNum int
  | JStr string
  | JArr "json list"
  | JObj "string \<Rightarrow> json option"

text \<open>The exceptions that leave a function of the repository.\<close>

datatype error =
    OSError
  | UnicodeDecodeError
  | RecursionError
  | AttributeError
  | TypeError
  | KeyError
  | ModelError

type_synonym 'a result = "error + 'a"

text \<open>
  \<^verbatim>\<open>data/user_profiles.json\<close> as the three library calls of \<^verbatim>\<open>load_user_profile\<close>
  see it:
  \<^item> \<open>Missing\<close>: \<^verbatim>\<open>exists()\<close> is false;
  \<^item> \<open>Unreadable\<close>: the path exists and \<^verbatim>\<open>read_text\<close> raises \<^verbatim>\<open>OSError\<close>;
  \<^item> \<open>Undecodable\<close>: the bytes of the file are not UTF-8, and \<^verbatim>\<open>read_text(encoding="utf-8")\<close>
    raises \<^verbatim>\<open>UnicodeDecodeError\<close>;
  \<^item> \<open>Garbled\<close>: the text is read and \<^verbatim>\<open>json.loads\<close> raises \<^verbatim>\<open>JSONDecodeError\<close>;
  \<^item> \<open>Too_deep\<close>: the text is read and is nested so deeply that \<^verbatim>\<open>json.loads\<close> raises
    \<^verbatim>\<open>RecursionError\<close>;
  \<^item> \<open>Document j\<close>: the text is read and \<^verbatim>\<open>json.loads\<close> returns \<open>j\<close>.

  \<^verbatim>\<open>write_text(json.dumps(profiles, indent=2))\<close> leaves a file that \<^verbatim>\<open>json.loads\<close> maps back
  to \<open>profiles\<close>, so a write puts the file in state \<open>Document profiles\<close>.
\<close>

datatype store_file =
    Missing
  | Unreadable
  | Undecodable
  | Garbled
  | Too_deep
  | Document json

text \<open>A policy document as \<^verbatim>\<open>search_policies\<close> builds it: the text and \<^verbatim>\<open>metadata["source"]\<close>.\<close>

record document =
  page_content :: string
  source :: string

text \<open>
  The files the program touches. \<open>policy_dir\<close> lists \<^verbatim>\<open>policies/*.txt\<close> in the order
  \<^verbatim>\<open>glob\<close> yields them, each path with its text, or \<open>None\<close> where \<^verbatim>\<open>read_text\<close> raises
  \<^verbatim>\<open>OSError\<close> (the policy files are taken to hold UTF-8 text). \<open>episodes_file\<close> is the text of \<^verbatim>\<open>data/episodes.jsonl\<close> (empty when the file
  does not exist yet). \<open>writable\<close> tells whether creating the data directory and writing
  into it succeed; when it is false every write raises \<^verbatim>\<open>OSError\<close>.
\<close>

record world =
  profiles_file :: store_file
  episodes_file :: string
  policy_dir :: "(string \<times> string option) list"
  writable :: bool

section \<open>The memory store (\<^verbatim>\<open>memory_store.py\<close>)\<close>

text \<open>
  The first five lines of \<^verbatim>\<open>load_user_profile\<close> and of \<^verbatim>\<open>save_user_profile\<close>: the parsed
  document, the empty dict when the file is missing or \<^verbatim>\<open>json.loads\<close> raises
  \<^verbatim>\<open>JSONDecodeError\<close>. That is the only exception the \<^verbatim>\<open>try\<close> catches: an \<^verbatim>\<open>OSError\<close> or a
  \<^verbatim>\<open>UnicodeDecodeError\<close> of \<^verbatim>\<open>read_text\<close> and a \<^verbatim>\<open>RecursionError\<close> of \<^verbatim>\<open>json.loads\<close> leave the
  function.
\<close>

definition read_profiles :: "store_file \<Rightarrow> json result" where
  "read_profiles f =
     (case f of
        Missing \<Rightarrow> Inr (JObj Map.empty)
      | Unreadable \<Rightarrow> Inl OSError
      | Undecodable \<Rightarrow> Inl UnicodeDecodeError
      | Garbled \<Rightarrow> Inr (JObj Map.empty)
      | Too_deep \<Rightarrow> Inl RecursionError
      | Document j \<Rightarrow> Inr j)"

text \<open>
  \<^verbatim>\<open>profiles.get(user_id, {})\<close>: only a dict has \<^verbatim>\<open>get\<close>; on any other JSON value the
  attribute lookup raises \<^verbatim>\<open>AttributeError\<close>.
\<close>

definition load_user_profile :: "world \<Rightarrow> string \<Rightarrow> json result" where
  "load_user_profile w uid =
     (case read_profiles (profiles_file w) of
        Inl e \<Rightarrow> Inl e
      | Inr (JObj profiles) \<Rightarrow>
          (case profiles uid of None \<Rightarrow> Inr (JObj Map.empty) | Some p \<Rightarrow> Inr p)
      | Inr _ \<Rightarrow> Inl AttributeError)"

text \<open>
  \<^verbatim>\<open>profiles[user_id] = profile\<close> raises \<^verbatim>\<open>TypeError\<close> on anything but a dict (a list
  takes integer indices only); then the directory is made and the document written.
\<close>

definition save_user_profile :: "world \<Rightarrow> string \<Rightarrow> json \<Rightarrow> world result" where
  "save_user_profile w uid profile =
     (case read_profiles (profiles_file w) of
        Inl e \<Rightarrow> Inl e
      | Inr (JObj profiles) \<Rightarrow>
          (if writable w
           then Inr (w\<lparr>profiles_file := Document (JObj (profiles(uid \<mapsto> profile)))\<rparr>)
           else Inl OSError)
      | Inr _ \<Rightarrow> Inl TypeError)"

subsection \<open>The episode log\<close>

text \<open>
  \<^verbatim>\<open>json.dumps\<close> of a string (with the default \<^verbatim>\<open>ensure_ascii=True\<close>): the quote and the
  backslash get a backslash, five control characters have short escapes, every other
  character outside the range from space to tilde is written \<^verbatim>\<open>\u00xx\<close> in lower-case
  hexadecimal.
\<close>

definition hex_digit :: "nat \<Rightarrow> char" where
  "hex_digit d = (if d < 10 then char_of (48 + d) else char_of (87 + d))"

definition json_escape_char :: "char \<Rightarrow> string" where
  "json_escape_char c =
     (if c = CHR 0x22 then [CHR 0x5C, CHR 0x22]
      else if c = CHR 0x5C then [CHR 0x5C, CHR 0x5C]
      else if c = CHR 0x0A then [CHR 0x5C, CHR ''n'']
      else if c = CHR 0x0D then [CHR 0x5C, CHR ''r'']
      else if c = CHR 0x09 then [CHR 0x5C, CHR ''t'']
      else if c = CHR 0x08 then [CHR 0x5C, CHR ''b'']
      else if c = CHR 0x0C then [CHR 0x5C, CHR ''f'']
      else if (of_char c :: nat) < 32 \<or> 126 < (of_char c :: nat)
      then [CHR 0x5C, CHR ''u'', CHR ''0'', CHR ''0'',
            hex_digit (of_char c div 16), hex_digit (of_char c mod 16)]
      else [c])"

definition json_dumps_str :: "string \<Rightarrow> string" where
  "json_dumps_str s = [CHR 0x22] @ concat (map json_escape_char s) @ [CHR 0x22]"

text \<open>\<^verbatim>\<open>json.dumps({"user_id": user_id, "summary": summary})\<close>\<close>

definition json_dumps_episode :: "string \<Rightarrow> string \<Rightarrow> string" where
  "json_dumps_episode uid summary =
     [CHR ''{''] @ json_dumps_str ''user_id'' @ '': '' @ json_dumps_str uid @ '', '' @
     json_dumps_str ''summary'' @ '': '' @ json_dumps_str summary @ [CHR ''}'']"

text \<open>
  \<^verbatim>\<open>append_episode\<close>: the file is opened in mode \<^verbatim>\<open>"a"\<close>, so the line goes after
  whatever the file holds.
\<close>

definition append_episode :: "world \<Rightarrow> string \<Rightarrow> string \<Rightarrow> world result" where
  "append_episode w uid summary =
     (if writable w
      then Inr (w\<lparr>episodes_file := episodes_file w @ json_dumps_episode uid summary @ [CHR 0x0A]\<rparr>)
      else Inl OSError)"

text \<open>A sequence of calls, stopping at the first one that raises.\<close>

fun append_episodes :: "world \<Rightarrow> (string \<times> string) list \<Rightarrow> world result" where
  "append_episodes w [] = Inr w"
| "append_episodes w ((uid, summary) # calls) =
     (case append_episode w uid summary of
        Inl e \<Rightarrow> Inl e
      | Inr w' \<Rightarrow> append_episodes w' calls)"

subsection \<open>Reading the episode log back\<close>

text \<open>
  The lines of a text file, without their newline characters, as reading the file line by
  line gives them; a last piece with no newline after it is a line too.
\<close>

fun lines_acc :: "string \<Rightarrow> string \<Rightarrow> string list" where
  "lines_acc cur [] = (if cur = [] then [] else [cur])"
| "lines_acc cur (c # cs) =
     (if c = CHR 0x0A then cur # lines_acc [] cs else lines_acc (cur @ [c]) cs)"

definition file_lines :: "string \<Rightarrow> string list" where
  "file_lines text = lines_acc [] text"

text \<open>
  A JSON reader for the lines of the log. \<open>json_string_body\<close> reads a string literal after
  its opening quote and returns the string and the rest of the input; it refuses raw
  control characters and unknown escapes, as JSON does, and code points above 255.
\<close>

definition hex_value :: "char \<Rightarrow> nat option" where
  "hex_value c =
     (let n = (of_char c :: nat) in
      if 48 \<le> n \<and> n \<le> 57 then Some (n - 48)
      else if 97 \<le> n \<and> n \<le> 102 then Some (n - 87)
      else if 65 \<le> n \<and> n \<le> 70 then Some (n - 55)
      else None)"

definition hex4 :: "char \<Rightarrow> char \<Rightarrow> char \<Rightarrow> char \<Rightarrow> char option" where
  "hex4 a b c d =
     (case (hex_value a, hex_value b, hex_value c, hex_value d) of
        (Some x3, Some x2, Some x1, Some x0) \<Rightarrow>
          (if x3 = 0 \<and> x2 = 0 then Some (char_of (16 * x1 + x0)) else None)
      | _ \<Rightarrow> None)"

definition unescape :: "char \<Rightarrow> char option" where
  "unescape e =
     (if e = CHR 0x22 then Some (CHR 0x22)
      else if e = CHR 0x5C then Some (CHR 0x5C)
      else if e = CHR ''/'' then Some (CHR ''/'')
      else if e = CHR ''n'' then Some (CHR 0x0A)
      else if e = CHR ''r'' then Some (CHR 0x0D)
      else if e = CHR ''t'' then Some (CHR 0x09)
      else if e = CHR ''b'' then Some (CHR 0x08)
      else if e = CHR ''f'' then Some (CHR 0x0C)
      else None)"

definition cons_str :: "char \<Rightarrow> (string \<times> string) option \<Rightarrow> (string \<times> string) option" where
  "cons_str c r = (case r of None \<Rightarrow> None | Some (s, rest) \<Rightarrow> Some (c # s, rest))"

fun json_string_body :: "string \<Rightarrow> (string \<times> string) option" where
  "json_string_body [] = None"
| "json_string_body (c # cs) =
     (if c = CHR 0x22 then Some ([], cs)
      else if c = CHR 0x5C then
        (case cs of
           [] \<Rightarrow> None
         | e # r \<Rightarrow>
             (if e = CHR ''u'' then
                (case r of
                   h3 # h2 # h1 # h0 # r' \<Rightarrow>
                     (case hex4 h3 h2 h1 h0 of
                        None \<Rightarrow> None
                      | Some ch \<Rightarrow> cons_str ch (json_string_body r'))
                 | _ \<Rightarrow> None)
              else
                (case unescape e of
                   None \<Rightarrow> None
                 | Some ch \<Rightarrow> cons_str ch (json_string_body r))))
      else if (of_char c :: nat) < 32 then None
      else cons_str c (json_string_body cs))"

text \<open>\<open>expect p s\<close>: the input \<open>s\<close> after its beginning \<open>p\<close>, if it begins with \<open>p\<close>.\<close>

definition expect :: "string \<Rightarrow> string \<Rightarrow> string option" where
  "expect p s = (if prefix p s then Some (drop (length p) s) else None)"

text \<open>
  A line is read as the object \<^verbatim>\<open>{"user_id": u, "summary": s}\<close>; the result is the pair
  of the two field values.
\<close>

definition parse_episode :: "string \<Rightarrow> (string \<times> string) option" where
  "parse_episode line =
     (case expect ([CHR ''{''] @ json_dumps_str ''user_id'' @ '': '' @ [CHR 0x22]) line of
        None \<Rightarrow> None
      | Some r1 \<Rightarrow>
          (case json_string_body r1 of
             None \<Rightarrow> None
           | Some (uid, r2) \<Rightarrow>
               (case expect ('', '' @ json_dumps_str ''summary'' @ '': '' @ [CHR 0x22]) r2 of
                  None \<Rightarrow> None
                | Some r3 \<Rightarrow>
                    (case json_string_body r3 of
                       None \<Rightarrow> None
                     | Some (summary, r4) \<Rightarrow>
                         (if r4 = [CHR ''}''] then Some (uid, summary) else None)))))"

section \<open>The tools (\<^verbatim>\<open>tools.py\<close>)\<close>

text \<open>
  The keywords of \<^verbatim>\<open>search_policies\<close>, from the query already stripped and lowered: the
  words longer than 3 characters, each with \<^verbatim>\<open>.,?!\<close> stripped from both ends, and the
  query itself when that list is empty.
\<close>

definition keywords_of :: "string \<Rightarrow> string list" where
  "keywords_of query =
     (let raw_words = py_split query;
          keywords = map (py_strip_chars ''.,?!'') (filter (\<lambda>w. length w > 3) raw_words)
      in if keywords = [] then [query] else keywords)"

text \<open>
  The loop over \<^verbatim>\<open>POLICY_DIR.glob("*.txt")\<close>, with the documents collected so far in
  \<open>docs\<close>. A file that cannot be read is passed over by \<^verbatim>\<open>continue\<close>, which also skips the
  test of the limit; after any other file the loop ends as soon as
  \<^verbatim>\<open>len(docs) >= top_k\<close>.
\<close>

fun scan_policies :: "string list \<Rightarrow> int \<Rightarrow> (string \<times> string option) list \<Rightarrow> document list
    \<Rightarrow> document list" where
  "scan_policies kws top_k [] docs = docs"
| "scan_policies kws top_k ((path, None) # files) docs = scan_policies kws top_k files docs"
| "scan_policies kws top_k ((path, Some text) # files) docs =
     (let docs' = (if any_in kws (py_lower text)
                   then docs @ [\<lparr>page_content = text, source = path\<rparr>]
                   else docs)
      in if int (length docs') \<ge> top_k then docs' else scan_policies kws top_k files docs')"

definition search_policies :: "world \<Rightarrow> string \<Rightarrow> int \<Rightarrow> document list" where
  "search_policies w query top_k =
     (let query = py_lower (py_strip query)
      in if query = [] then []
         else scan_policies (keywords_of query) top_k (policy_dir w) [])"

definition get_user_profile_tool :: "world \<Rightarrow> string \<Rightarrow> json result" where
  "get_user_profile_tool w uid = load_user_profile w uid"

text \<open>
  \<^verbatim>\<open>profile.update(new_fields)\<close> needs a dict; any other stored value has no \<^verbatim>\<open>update\<close>
  and raises \<^verbatim>\<open>AttributeError\<close>. The result is the merged profile and the files after the
  save.
\<close>

definition update_user_profile_tool ::
    "world \<Rightarrow> string \<Rightarrow> (string \<Rightarrow> json option) \<Rightarrow> (json \<times> world) result" where
  "update_user_profile_tool w uid new_fields =
     (case load_user_profile w uid of
        Inl e \<Rightarrow> Inl e
      | Inr (JObj profile) \<Rightarrow>
          (let profile' = JObj (profile ++ new_fields)
           in case save_user_profile w uid profile' of
                Inl e \<Rightarrow> Inl e
              | Inr w' \<Rightarrow> Inr (profile', w'))
      | Inr _ \<Rightarrow> Inl AttributeError)"

section \<open>The turn controller (\<^verbatim>\<open>graph.py\<close>)\<close>

text \<open>The three message classes the code tells apart with \<^verbatim>\<open>isinstance\<close>.\<close>

datatype message =
    HumanMessage (content: string)
  | AIMessage (content: string)
  | SystemMessage (content: string)

fun is_human :: "message \<Rightarrow> bool" where
  "is_human (HumanMessage _) = True"
| "is_human _ = False"

fun is_ai :: "message \<Rightarrow> bool" where
  "is_ai (AIMessage _) = True"
| "is_ai _ = False"

text \<open>
  \<^verbatim>\<open>AgentState\<close> is a \<^verbatim>\<open>TypedDict\<close> with \<^verbatim>\<open>total=False\<close>: every key may be absent, which is
  \<open>None\<close> here. (\<open>done_flag\<close> is the key \<^verbatim>\<open>done\<close>.) For \<open>policy_query\<close> the code only
  compares \<^verbatim>\<open>state.get("policy_query")\<close> with a string, so an absent key and the value
  \<^verbatim>\<open>None\<close> are the same \<open>None\<close>.
\<close>

record agent_state =
  messages :: "message list option"
  user_id :: "string option"
  user_profile :: "json option"
  profile_updated :: "bool option"
  policy_query :: "string option"
  retrieved_policies :: "document list option"
  tool_results :: "(string \<Rightarrow> json option) option"
  next_action :: "string option"
  done_flag :: "bool option"

text \<open>
  What the program takes from outside its own code: the chat model behind \<^verbatim>\<open>call_llm\<close>
  (the reply's text, or an exception), and Python's rendering of a dict inside an f-string.
\<close>

record runtime =
  chat_invoke :: "message list \<Rightarrow> string result"
  py_repr :: "json \<Rightarrow> string"

text \<open>\<^verbatim>\<open>llm.py\<close>\<close>

definition call_llm :: "runtime \<Rightarrow> message list \<Rightarrow> string result" where
  "call_llm rt msgs = chat_invoke rt msgs"

text \<open>\<^verbatim>\<open>state.get("messages", [])\<close>\<close>

definition get_messages :: "agent_state \<Rightarrow> message list" where
  "get_messages st = (case messages st of None \<Rightarrow> [] | Some ms \<Rightarrow> ms)"

text \<open>The loop over \<^verbatim>\<open>reversed(messages)\<close> that stops at the first \<^verbatim>\<open>HumanMessage\<close>.\<close>

definition last_human :: "message list \<Rightarrow> message option" where
  "last_human ms = find is_human (rev ms)"

definition last_ai :: "message list \<Rightarrow> message option" where
  "last_ai ms = find is_ai (rev ms)"

subsection \<open>\<^verbatim>\<open>ingest_user\<close>\<close>

text \<open>
  \<^verbatim>\<open>if user_id and "user_profile" not in state\<close>: an empty \<^verbatim>\<open>user_id\<close> is falsy. The three
  \<^verbatim>\<open>setdefault\<close> calls follow.
\<close>

definition set_defaults :: "agent_state \<Rightarrow> agent_state" where
  "set_defaults st =
     st\<lparr>retrieved_policies := (case retrieved_policies st of None \<Rightarrow> Some [] | Some r \<Rightarrow> Some r),
        tool_results := (case tool_results st of None \<Rightarrow> Some Map.empty | Some t \<Rightarrow> Some t),
        done_flag := (case done_flag st of None \<Rightarrow> Some False | Some d \<Rightarrow> Some d)\<rparr>"

definition ingest_user :: "world \<Rightarrow> agent_state \<Rightarrow> agent_state result" where
  "ingest_user w st =
     (case user_id st of
        None \<Rightarrow> Inr (set_defaults st)
      | Some uid \<Rightarrow>
          (if uid \<noteq> [] \<and> user_profile st = None
           then (case get_user_profile_tool w uid of
                   Inl e \<Rightarrow> Inl e
                 | Inr profile \<Rightarrow>
                     Inr (set_defaults
                            (st\<lparr>user_profile := Some profile, profile_updated := Some False\<rparr>)))
           else Inr (set_defaults st)))"

subsection \<open>\<^verbatim>\<open>planner\<close>\<close>

definition policy_keywords :: "string list" where
  "policy_keywords = [''refund'', ''loan'', ''privacy'', ''ticket'', ''escalation'', ''policy'']"

text \<open>
  The keyword router, lines 127 to 140: true when the \<^verbatim>\<open>if\<close> of line 140 is reached and
  taken.
\<close>

definition keyword_router :: "agent_state \<Rightarrow> bool" where
  "keyword_router st =
     (case last_human (get_messages st) of
        None \<Rightarrow> False
      | Some m \<Rightarrow>
          (let text = py_lower (content m);
               already_searched = (policy_query st = Some (content m))
           in any_in policy_keywords text \<and> \<not> already_searched))"

definition planner_prompt :: string where
  "planner_prompt =
     ''You are a support copilot for internal policies.\<newline>'' @
     ''You can decide one of these next actions:\<newline>'' @
     ''- search_policies: when you need to look up a policy document.\<newline>'' @
     ''- update_profile: when the user shares stable preferences or profile info (e.g., favorite color).\<newline>'' @
     ''- ask_clarification: when the question is unclear and you need more info.\<newline>'' @
     ''- answer: when you can answer directly from the current context.\<newline>'' @
     ''In your reply, clearly include the chosen action name exactly once in this format:\<newline>'' @
     ''Action: search_policies\<newline>'' @
     ''or\<newline>'' @
     ''Action: update_profile\<newline>'' @
     ''or\<newline>'' @
     ''Action: ask_clarification\<newline>'' @
     ''or\<newline>'' @
     ''Action: answer''"

text \<open>The \<^verbatim>\<open>if\<close>/\<^verbatim>\<open>elif\<close> chain of lines 173 to 183, on the lowered reply.\<close>

definition parse_action :: "string \<Rightarrow> string" where
  "parse_action content_lower =
     (if py_in ''action: search_policies'' content_lower then ''search_policies''
      else if py_in ''action: update_profile'' content_lower then ''update_profile''
      else if py_in ''action: ask_clarification'' content_lower then ''ask_clarification''
      else if py_in ''action: answer'' content_lower then ''answer''
      else ''answer'')"

text \<open>The second stage of \<^verbatim>\<open>planner\<close>, lines 144 to 186: the model decides.\<close>

definition planner_llm :: "runtime \<Rightarrow> agent_state \<Rightarrow> agent_state result" where
  "planner_llm rt st =
     (let msgs = get_messages st
      in case call_llm rt (SystemMessage planner_prompt # msgs) of
           Inl e \<Rightarrow> Inl e
         | Inr reply \<Rightarrow>
             Inr (st\<lparr>messages := Some (msgs @ [AIMessage reply]),
                    next_action := Some (parse_action (py_lower reply))\<rparr>))"

definition planner :: "runtime \<Rightarrow> agent_state \<Rightarrow> agent_state result" where
  "planner rt st =
     (if keyword_router st
      then Inr (st\<lparr>next_action := Some ''search_policies''\<rparr>)
      else planner_llm rt st)"

subsection \<open>\<^verbatim>\<open>run_tools\<close>\<close>

text \<open>
  The fields the toy rule of lines 216 to 228 extracts from the last user message, if
  there is one.
\<close>

definition extract_fields :: "message option \<Rightarrow> (string \<Rightarrow> json option)" where
  "extract_fields lh =
     (case lh of
        None \<Rightarrow> Map.empty
      | Some m \<Rightarrow>
          (let text = py_strip (content m);
               lower = py_lower text
           in if py_in ''favorite color'' lower
              then (let parts = py_split (remove_dots text)
                    in if parts \<noteq> [] then [''favorite_color'' \<mapsto> JStr (last parts)]
                       else Map.empty)
              else Map.empty))"

text \<open>\<^verbatim>\<open>state.setdefault("tool_results", {})\<close>\<close>

definition default_tool_results :: "agent_state \<Rightarrow> agent_state" where
  "default_tool_results st =
     st\<lparr>tool_results := (case tool_results st of None \<Rightarrow> Some Map.empty | Some t \<Rightarrow> Some t)\<rparr>"

text \<open>
  \<^verbatim>\<open>state["user_id"]\<close> raises \<^verbatim>\<open>KeyError\<close> when the key is absent. \<^verbatim>\<open>search_policies\<close> is
  called with its default \<^verbatim>\<open>top_k=3\<close>.
\<close>

definition run_tools :: "agent_state \<Rightarrow> world \<Rightarrow> (agent_state \<times> world) result" where
  "run_tools st w =
     (let action = (case next_action st of None \<Rightarrow> ''answer'' | Some a \<Rightarrow> a)
      in case user_id st of
           None \<Rightarrow> Inl KeyError
         | Some uid \<Rightarrow>
             (let lh = last_human (get_messages st)
              in if action = ''search_policies'' then
                   (let query = (case lh of None \<Rightarrow> [] | Some m \<Rightarrow> content m);
                        hits = search_policies w query 3
                    in Inr (default_tool_results
                              (st\<lparr>policy_query := Some query, retrieved_policies := Some hits\<rparr>), w))
                 else if action = ''update_profile'' then
                   (let new_fields = extract_fields lh
                    in if new_fields \<noteq> Map.empty then
                         (case update_user_profile_tool w uid new_fields of
                            Inl e \<Rightarrow> Inl e
                          | Inr (updated_profile, w') \<Rightarrow>
                              Inr (default_tool_results
                                     (st\<lparr>user_profile := Some updated_profile,
                                         profile_updated := Some True\<rparr>), w'))
                       else Inr (default_tool_results st, w))
                 else Inr (default_tool_results st, w)))"

subsection \<open>\<^verbatim>\<open>answer\<close>\<close>

definition answer_prompt :: string where
  "answer_prompt =
     ''You are a helpful, concise support copilot.\<newline>'' @
     ''Use the user profile, any retrieved policy snippets, and the '' @
     ''conversation to answer the user's latest question.\<newline>'' @
     ''If you looked up policies, briefly mention that you checked the policy documents.\<newline>'' @
     ''If you updated the user's profile, you may briefly acknowledge it.''"

definition policy_block :: "document \<Rightarrow> string" where
  "policy_block doc =
     ''\<newline>[POLICY from '' @ source doc @ '']\<newline>'' @ page_content doc @ ''\<newline>''"

definition context_content :: "runtime \<Rightarrow> agent_state \<Rightarrow> string" where
  "context_content rt st =
     (let profile_context =
            ''[USER_PROFILE]\<newline>'' @
            py_repr rt (case user_profile st of None \<Rightarrow> JObj Map.empty | Some p \<Rightarrow> p) @
            ''\<newline>'';
          policy_context =
            concat (map policy_block
                      (case retrieved_policies st of None \<Rightarrow> [] | Some ds \<Rightarrow> ds))
      in ''Context for this conversation:\<newline>'' @ profile_context @ ''\<newline>'' @ policy_context)"

definition answer :: "runtime \<Rightarrow> agent_state \<Rightarrow> agent_state result" where
  "answer rt st =
     (let msgs = get_messages st
      in case call_llm rt
                (SystemMessage answer_prompt # SystemMessage (context_content rt st) # msgs) of
           Inl e \<Rightarrow> Inl e
         | Inr reply \<Rightarrow>
             Inr (st\<lparr>messages := Some (msgs @ [AIMessage reply]), done_flag := Some True\<rparr>))"

subsection \<open>\<^verbatim>\<open>log_episode_node\<close>\<close>

text \<open>The state is returned as it came; only the episode file changes.\<close>

definition log_episode_node :: "agent_state \<Rightarrow> world \<Rightarrow> (agent_state \<times> world) result" where
  "log_episode_node st w =
     (case last_ai (get_messages st) of
        None \<Rightarrow> Inr (st, w)
      | Some m \<Rightarrow>
          (let uid = (case user_id st of None \<Rightarrow> ''unknown-user'' | Some u \<Rightarrow> u)
           in case append_episode w uid (content m) of
                Inl e \<Rightarrow> Inl e
              | Inr w' \<Rightarrow> Inr (st, w')))"

subsection \<open>\<^verbatim>\<open>build_graph\<close>\<close>

text \<open>
  The edges of the graph: \<^verbatim>\<open>ingest_user\<close>, then \<^verbatim>\<open>planner\<close>; from \<^verbatim>\<open>planner\<close> the table of
  \<^verbatim>\<open>add_conditional_edges\<close> leads to \<^verbatim>\<open>answer\<close> or to \<^verbatim>\<open>run_tools\<close>, which leads back to
  \<^verbatim>\<open>planner\<close>; \<^verbatim>\<open>answer\<close>, then \<^verbatim>\<open>log_episode\<close>, then the end.
\<close>

datatype node = Answer_node | Run_tools_node

definition route :: "agent_state \<Rightarrow> node option" where
  "route st =
     (case next_action st of
        None \<Rightarrow> None
      | Some a \<Rightarrow>
          (if a = ''answer'' then Some Answer_node
           else if a = ''search_policies'' then Some Run_tools_node
           else if a = ''update_profile'' then Some Run_tools_node
           else if a = ''ask_clarification'' then Some Answer_node
           else None))"

text \<open>
  The cycle between \<^verbatim>\<open>planner\<close> and \<^verbatim>\<open>run_tools\<close> has no bound in the code and need not
  end. \<open>plan_act n\<close> runs at most \<open>n\<close> rounds of \<^verbatim>\<open>planner\<close>: \<open>None\<close> when \<open>n\<close> rounds did
  not reach \<^verbatim>\<open>answer\<close>, \<open>Some (Inl e)\<close> when a node raised \<open>e\<close>, \<open>Some (Inr (st, w))\<close> when
  \<^verbatim>\<open>planner\<close> chose the edge to \<^verbatim>\<open>answer\<close> in state \<open>st\<close>. A \<^verbatim>\<open>next_action\<close> outside the
  table is a \<^verbatim>\<open>KeyError\<close>.
\<close>

fun plan_act :: "nat \<Rightarrow> runtime \<Rightarrow> agent_state \<Rightarrow> world \<Rightarrow> (agent_state \<times> world) result option" where
  "plan_act 0 rt st w = None"
| "plan_act (Suc n) rt st w =
     (case planner rt st of
        Inl e \<Rightarrow> Some (Inl e)
      | Inr st1 \<Rightarrow>
          (case route st1 of
             None \<Rightarrow> Some (Inl KeyError)
           | Some Answer_node \<Rightarrow> Some (Inr (st1, w))
           | Some Run_tools_node \<Rightarrow>
               (case run_tools st1 w of
                  Inl e \<Rightarrow> Some (Inl e)
                | Inr (st2, w2) \<Rightarrow> plan_act n rt st2 w2)))"

text \<open>One \<^verbatim>\<open>app.invoke(state)\<close>: the whole path from the entry point to the end.\<close>

definition invoke :: "nat \<Rightarrow> runtime \<Rightarrow> agent_state \<Rightarrow> world \<Rightarrow> (agent_state \<times> world) result option" where
  "invoke n rt st w =
     (case ingest_user w st of
        Inl e \<Rightarrow> Some (Inl e)
      | Inr st1 \<Rightarrow>
          (case plan_act n rt st1 w of
             None \<Rightarrow> None
           | Some (Inl e) \<Rightarrow> Some (Inl e)
           | Some (Inr (st2, w2)) \<Rightarrow>
               (case answer rt st2 of
                  Inl e \<Rightarrow> Some (Inl e)
                | Inr st3 \<Rightarrow> Some (log_episode_node st3 w2))))"

section \<open>The command-line driver (\<^verbatim>\<open>app.py\<close>)\<close>

definition initial_state :: agent_state where
  "initial_state =
     \<lparr>messages = Some [], user_id = Some ''demo-user-123'', user_profile = None,
      profile_updated = None, policy_query = None, retrieved_policies = None,
      tool_results = None, next_action = None, done_flag = None\<rparr>"

text \<open>
  One round of the \<^verbatim>\<open>while\<close> loop of \<^verbatim>\<open>main\<close> on a line that was read: the loop ends
  (\<open>Stop\<close>), or goes on with a session state (\<open>Go_on\<close>), unchanged after an empty line.
\<close>

datatype step = Stop | Go_on agent_state world

definition main_step :: "nat \<Rightarrow> runtime \<Rightarrow> string \<Rightarrow> agent_state \<Rightarrow> world \<Rightarrow> step result option" where
  "main_step n rt line st w =
     (let user_input = py_strip line
      in if py_lower user_input \<in> {''exit'', ''quit'', ''q''} then Some (Inr Stop)
         else if user_input = [] then Some (Inr (Go_on st w))
         else (case invoke n rt
                      (st\<lparr>messages := Some (get_messages st @ [HumanMessage user_input])\<rparr>) w of
                 None \<Rightarrow> None
               | Some (Inl e) \<Rightarrow> Some (Inl e)
               | Some (Inr (st', w')) \<Rightarrow> Some (Inr (Go_on st' w'))))"

section \<open>The wording of the specification\<close>

text \<open>
  Two definitions that follow the words of the specification instead of the code; the
  claims that use them compare them with the code's own functions.

  The keywords as the specification describes them: the words of the normalised query that
  are longer than 3 characters, with trailing \<^verbatim>\<open>.,?!\<close> stripped, or the whole normalised
  query when there is no such word.
\<close>

definition spec_keywords :: "string \<Rightarrow> string list" where
  "spec_keywords query =
     (let kept = map (\<lambda>w. rev (dropWhile (\<lambda>c. c \<in> set ''.,?!'') (rev w)))
                     (filter (\<lambda>w. length w > 3) (py_split query))
      in if kept = [] then [query] else kept)"

text \<open>
  The action as the specification describes it: the four markers in the order the
  specification lists them, the action of the first one that occurs in the lowered reply,
  and \<^verbatim>\<open>answer\<close> when none occurs.
\<close>

definition spec_markers :: "(string \<times> string) list" where
  "spec_markers =
     [(''action: search_policies'', ''search_policies''),
      (''action: update_profile'', ''update_profile''),
      (''action: ask_clarification'', ''ask_clarification''),
      (''action: answer'', ''answer'')]"

definition spec_first_marker :: "string \<Rightarrow> string" where
  "spec_first_marker content_lower =
     (case find (\<lambda>(marker, action). py_in marker content_lower) spec_markers of
        None \<Rightarrow> ''answer''
      | Some (marker, action) \<Rightarrow> action)"

section \<open>Auxiliary notions for the statements\<close>

text \<open>The documents of the files that can be read, in the order of the directory listing.\<close>

fun readable_docs :: "(string \<times> string option) list \<Rightarrow> document list" where
  "readable_docs [] = []"
| "readable_docs ((path, None) # files) = readable_docs files"
| "readable_docs ((path, Some text) # files) =
     \<lparr>page_content = text, source = path\<rparr> # readable_docs files"

text \<open>A text whose last line, if it has any line, is closed by a newline character.\<close>

definition complete_lines :: "string \<Rightarrow> bool" where
  "complete_lines text = (text = [] \<or> last text = CHR 0x0A)"

section \<open>Sample data\<close>

text \<open>
  A store with no file in it, and a model that gives the same reply to every request;
  the instances of the theorems below are stated on them.
\<close>

abbreviation (input) empty_world :: world where
  "empty_world \<equiv>
     \<lparr>profiles_file = Missing, episodes_file = [], policy_dir = [], writable = True\<rparr>"

abbreviation (input) answering_model :: runtime where
  "answering_model \<equiv>
     \<lparr>chat_invoke = (\<lambda>_. Inr ''Action: answer''), py_repr = (\<lambda>_. ''{}'')\<rparr>"

text \<open>Two policy files, both readable.\<close>

abbreviation (input) refund_world :: world where
  "refund_world \<equiv>
     \<lparr>profiles_file = Missing, episodes_file = [],
      policy_dir = [(''policies/refund.txt'', Some ''What is refunded and when''),
                    (''policies/loan.txt'', Some ''Loans are repaid monthly'')],
      writable = True\<rparr>"

section \<open>Loading a profile\<close>

text \<open>
  Claim C5, as the code has it. \<^verbatim>\<open>load_user_profile\<close> returns the empty mapping when the
  profiles file is missing and when \<^verbatim>\<open>json.loads\<close> rejects its text with
  \<^verbatim>\<open>JSONDecodeError\<close>; when the text parses to a JSON object it returns the entry of the
  user, or the empty mapping when the object has none. No other exception is caught: an
  \<^verbatim>\<open>OSError\<close> raised while the existing file is read, the \<^verbatim>\<open>UnicodeDecodeError\<close> of a file
  whose bytes are not UTF-8, and the \<^verbatim>\<open>RecursionError\<close> of a text nested too deeply each
  leave the function.
\<close>

theorem load_user_profile_cases:
  "load_user_profile (w\<lparr>profiles_file := Missing\<rparr>) uid = Inr (JObj Map.empty) \<and>
   load_user_profile (w\<lparr>profiles_file := Garbled\<rparr>) uid = Inr (JObj Map.empty) \<and>
   load_user_profile (w\<lparr>profiles_file := Document (JObj profiles)\<rparr>) uid =
     Inr (case profiles uid of None \<Rightarrow> JObj Map.empty | Some p \<Rightarrow> p) \<and>
   load_user_profile (w\<lparr>profiles_file := Unreadable\<rparr>) uid = Inl OSError \<and>
   load_user_profile (w\<lparr>profiles_file := Undecodable\<rparr>) uid = Inl UnicodeDecodeError \<and>
   load_user_profile (w\<lparr>profiles_file := Too_deep\<rparr>) uid = Inl RecursionError"
  by (simp add: load_user_profile_def read_profiles_def split: option.splits)

text \<open>
  The theorem at a store that holds the profile of \<^verbatim>\<open>u1\<close>: that profile is returned for
  \<^verbatim>\<open>u1\<close>.
\<close>

theorem load_user_profile_cases_witness:
  "load_user_profile
     \<lparr>profiles_file = Document (JObj [''u1'' \<mapsto> JObj [''favorite_color'' \<mapsto> JStr ''blue'']]),
      episodes_file = [], policy_dir = [], writable = True\<rparr> ''u1''
   = Inr (JObj [''favorite_color'' \<mapsto> JStr ''blue''])"
  using load_user_profile_cases
    [of "\<lparr>profiles_file = Missing, episodes_file = [], policy_dir = [], writable = True\<rparr>"
        "''u1''" "[''u1'' \<mapsto> JObj [''favorite_color'' \<mapsto> JStr ''blue'']]"]
  by simp

text \<open>
  Claim C5 as it is written says that \<^verbatim>\<open>load_user_profile\<close> never raises, whatever the file
  holds, that malformed content gives the empty mapping, and that a file-system error
  while reading gives the empty mapping. On a file that exists and cannot be read the
  \<^verbatim>\<open>OSError\<close> of \<^verbatim>\<open>read_text\<close> leaves the function; on a file whose bytes are not UTF-8 its
  \<^verbatim>\<open>UnicodeDecodeError\<close> does; on a text nested too deeply the \<^verbatim>\<open>RecursionError\<close> of
  \<^verbatim>\<open>json.loads\<close> does; and on a file that holds the JSON text \<^verbatim>\<open>[]\<close> the call
  \<^verbatim>\<open>profiles.get\<close> raises \<^verbatim>\<open>AttributeError\<close>.
\<close>

theorem load_user_profile_raises:
  "load_user_profile
     \<lparr>profiles_file = Unreadable, episodes_file = [], policy_dir = [], writable = True\<rparr>
     ''u1'' = Inl OSError \<and>
   load_user_profile
     \<lparr>profiles_file = Undecodable, episodes_file = [], policy_dir = [], writable = True\<rparr>
     ''u1'' = Inl UnicodeDecodeError \<and>
   load_user_profile
     \<lparr>profiles_file = Too_deep, episodes_file = [], policy_dir = [], writable = True\<rparr>
     ''u1'' = Inl RecursionError \<and>
   load_user_profile
     \<lparr>profiles_file = Document (JArr []), episodes_file = [], policy_dir = [], writable = True\<rparr>
     ''u1'' = Inl AttributeError"
  by (simp add: load_user_profile_def read_profiles_def)

section \<open>Updating a profile\<close>

text \<open>
  Claim C3. Let the store be one from which \<^verbatim>\<open>load_user_profile\<close> returns a mapping \<open>old\<close>
  for the user (the stored profile, or the empty mapping when nothing is stored), and let
  writing succeed. Then, for every user and every mapping \<open>new_fields\<close>,
  \<^verbatim>\<open>update_user_profile_tool\<close> returns a mapping \<open>merged\<close>, \<^verbatim>\<open>get_user_profile_tool\<close> called
  afterwards returns the same \<open>merged\<close>, and \<open>merged\<close> is the union of \<open>old\<close> and
  \<open>new_fields\<close> in which \<open>new_fields\<close> wins on every key it has.
\<close>

theorem update_then_get:
  assumes "load_user_profile w uid = Inr (JObj old)" and "writable w"
  shows "\<exists>merged w'.
           update_user_profile_tool w uid new_fields = Inr (JObj merged, w') \<and>
           get_user_profile_tool w' uid = Inr (JObj merged) \<and>
           (\<forall>k. merged k = (case new_fields k of None \<Rightarrow> old k | Some v \<Rightarrow> Some v))"
proof -
  from assms(1) obtain profiles where
    rp: "read_profiles (profiles_file w) = Inr (JObj profiles)"
    by (auto simp: load_user_profile_def split: sum.splits json.splits)
  let ?w' = "w\<lparr>profiles_file := Document (JObj (profiles(uid \<mapsto> JObj (old ++ new_fields))))\<rparr>"
  have s: "save_user_profile w uid (JObj (old ++ new_fields)) = Inr ?w'"
    using rp assms(2) by (simp add: save_user_profile_def)
  have u: "update_user_profile_tool w uid new_fields = Inr (JObj (old ++ new_fields), ?w')"
    using assms(1) s by (simp add: update_user_profile_tool_def Let_def)
  have g: "get_user_profile_tool ?w' uid = Inr (JObj (old ++ new_fields))"
    by (simp add: get_user_profile_tool_def load_user_profile_def read_profiles_def)
  have m: "\<forall>k. (old ++ new_fields) k = (case new_fields k of None \<Rightarrow> old k | Some v \<Rightarrow> Some v)"
    by (simp add: map_add_def)
  from u g m show ?thesis by blast
qed

text \<open>
  The theorem on a store that holds a name and a favourite colour for \<^verbatim>\<open>u1\<close>: after the
  update with a new colour the name is kept, the colour is the new one, and no other fact
  appears.
\<close>

theorem update_then_get_witness:
  "\<exists>merged w'.
     update_user_profile_tool
       \<lparr>profiles_file = Document (JObj [''u1'' \<mapsto> JObj [''name'' \<mapsto> JStr ''Ann'',
                                                      ''favorite_color'' \<mapsto> JStr ''red'']]),
        episodes_file = [], policy_dir = [], writable = True\<rparr>
       ''u1'' [''favorite_color'' \<mapsto> JStr ''blue''] = Inr (JObj merged, w') \<and>
     get_user_profile_tool w' ''u1'' = Inr (JObj merged) \<and>
     merged ''name'' = Some (JStr ''Ann'') \<and>
     merged ''favorite_color'' = Some (JStr ''blue'') \<and>
     merged ''age'' = None"
proof -
  let ?old = "[''name'' \<mapsto> JStr ''Ann'', ''favorite_color'' \<mapsto> JStr ''red'']"
  let ?w = "\<lparr>profiles_file = Document (JObj [''u1'' \<mapsto> JObj ?old]),
             episodes_file = [], policy_dir = [], writable = True\<rparr>"
  have l: "load_user_profile ?w ''u1'' = Inr (JObj ?old)"
    by (simp add: load_user_profile_def read_profiles_def)
  have wr: "writable ?w" by simp
  from update_then_get [OF l wr, of "[''favorite_color'' \<mapsto> JStr ''blue'']"]
  obtain merged w' where
    a: "update_user_profile_tool ?w ''u1'' [''favorite_color'' \<mapsto> JStr ''blue'']
        = Inr (JObj merged, w')"
    and b: "get_user_profile_tool w' ''u1'' = Inr (JObj merged)"
    and c: "\<forall>k. merged k = (case [''favorite_color'' \<mapsto> JStr ''blue''] k of
                               None \<Rightarrow> ?old k | Some v \<Rightarrow> Some v)"
    by blast
  have "merged ''name'' = Some (JStr ''Ann'')" using c by simp
  moreover have "merged ''favorite_color'' = Some (JStr ''blue'')" using c by simp
  moreover have "merged ''age'' = None" using c by simp
  ultimately show ?thesis using a b by blast
qed

section \<open>The planner\<close>

text \<open>
  Claim C1. Let \<open>m\<close> be the most recent user message of the state. If the lowered text of
  \<open>m\<close> contains one of the six keywords and \<open>policy_query\<close> is not the text of \<open>m\<close>, then
  \<^verbatim>\<open>planner\<close> returns the state with \<open>next_action\<close> set to \<^verbatim>\<open>search_policies\<close> and nothing
  else changed, whatever the model is (so also with a model that raises on every call:
  the model is not called). If \<open>policy_query\<close> is the text of \<open>m\<close>, the rule does not
  apply and \<^verbatim>\<open>planner\<close> is its second stage, where the model decides.
\<close>

theorem planner_keyword_route:
  assumes "last_human (get_messages st) = Some m"
  shows "(kw \<in> {''refund'', ''loan'', ''privacy'', ''ticket'', ''escalation'', ''policy''} \<and>
          py_in kw (py_lower (content m)) \<and> policy_query st \<noteq> Some (content m)
          \<longrightarrow> planner rt st = Inr (st\<lparr>next_action := Some ''search_policies''\<rparr>)) \<and>
         (policy_query st = Some (content m) \<longrightarrow> planner rt st = planner_llm rt st)"
  using assms
  by (auto simp: planner_def keyword_router_def any_in_def policy_keywords_def Let_def)

text \<open>
  The theorem on the question about the refund policy: with no search recorded and a
  model that raises, \<^verbatim>\<open>planner\<close> returns \<^verbatim>\<open>search_policies\<close>; with that very question
  recorded as \<open>policy_query\<close> and a model that replies \<^verbatim>\<open>Action: answer\<close>, the reply is
  appended and \<open>next_action\<close> is \<^verbatim>\<open>answer\<close>.
\<close>

theorem planner_keyword_route_witness:
  "planner \<lparr>chat_invoke = (\<lambda>_. Inl ModelError), py_repr = (\<lambda>_. [])\<rparr>
     (initial_state\<lparr>messages := Some [HumanMessage ''What is the Refund policy?'']\<rparr>)
   = Inr (initial_state\<lparr>messages := Some [HumanMessage ''What is the Refund policy?''],
                        next_action := Some ''search_policies''\<rparr>) \<and>
   planner \<lparr>chat_invoke = (\<lambda>_. Inr ''Action: answer''), py_repr = (\<lambda>_. [])\<rparr>
     (initial_state\<lparr>messages := Some [HumanMessage ''What is the Refund policy?''],
                    policy_query := Some ''What is the Refund policy?''\<rparr>)
   = Inr (initial_state\<lparr>messages := Some [HumanMessage ''What is the Refund policy?'',
                                            AIMessage ''Action: answer''],
                        policy_query := Some ''What is the Refund policy?'',
                        next_action := Some ''answer''\<rparr>)"
proof -
  let ?q = "''What is the Refund policy?''"
  let ?st = "initial_state\<lparr>messages := Some [HumanMessage ?q]\<rparr>"
  have lh: "last_human (get_messages ?st) = Some (HumanMessage ?q)"
    by (simp add: last_human_def get_messages_def)
  have kw: "py_in ''refund'' (py_lower (content (HumanMessage ?q)))"
    by code_simp
  have pq: "policy_query ?st \<noteq> Some (content (HumanMessage ?q))"
    by (simp add: initial_state_def)
  have a: "planner \<lparr>chat_invoke = (\<lambda>_. Inl ModelError), py_repr = (\<lambda>_. [])\<rparr> ?st
           = Inr (?st\<lparr>next_action := Some ''search_policies''\<rparr>)"
    using planner_keyword_route [OF lh, of "''refund''"] kw pq by simp
  let ?st2 = "?st\<lparr>policy_query := Some ?q\<rparr>"
  have lh2: "last_human (get_messages ?st2) = Some (HumanMessage ?q)"
    by (simp add: last_human_def get_messages_def)
  have act: "parse_action (py_lower ''Action: answer'') = ''answer''"
    by code_simp
  have b: "planner \<lparr>chat_invoke = (\<lambda>_. Inr ''Action: answer''), py_repr = (\<lambda>_. [])\<rparr> ?st2
           = Inr (?st2\<lparr>messages := Some [HumanMessage ?q, AIMessage ''Action: answer''],
                       next_action := Some ''answer''\<rparr>)"
    using planner_keyword_route [OF lh2, of "''refund''"] act
    by (simp add: planner_llm_def call_llm_def get_messages_def)
  show ?thesis using a b by simp
qed

lemma parse_action_spec: "parse_action t = spec_first_marker t"
  by (simp add: parse_action_def spec_first_marker_def spec_markers_def)

text \<open>
  Claim C6. When the keyword rule does not apply and the model replies, \<^verbatim>\<open>planner\<close> sets
  \<open>next_action\<close> to the action of the first of the four markers, in the order
  \<^verbatim>\<open>action: search_policies\<close>, \<^verbatim>\<open>action: update_profile\<close>, \<^verbatim>\<open>action: ask_clarification\<close>,
  \<^verbatim>\<open>action: answer\<close>, that occurs in the lowered reply, and to \<^verbatim>\<open>answer\<close> when none of them
  occurs.
\<close>

theorem planner_next_action:
  assumes "\<not> keyword_router st"
    and "call_llm rt (SystemMessage planner_prompt # get_messages st) = Inr reply"
  shows "\<exists>st'. planner rt st = Inr st' \<and>
           next_action st' = Some (spec_first_marker (py_lower reply))"
  using assms by (simp add: planner_def planner_llm_def parse_action_spec)

text \<open>The theorem on a reply that names \<^verbatim>\<open>update_profile\<close>, in a session with no message yet.\<close>

theorem planner_next_action_witness:
  "\<exists>st'. planner \<lparr>chat_invoke = (\<lambda>_. Inr ''I will update. Action: update_profile''),
                    py_repr = (\<lambda>_. [])\<rparr> initial_state = Inr st' \<and>
         next_action st' = Some ''update_profile''"
proof -
  let ?rt = "\<lparr>chat_invoke = (\<lambda>_. Inr ''I will update. Action: update_profile''),
              py_repr = (\<lambda>_. [])\<rparr>"
  have k: "\<not> keyword_router initial_state"
    by (simp add: keyword_router_def initial_state_def get_messages_def last_human_def)
  have c: "call_llm ?rt (SystemMessage planner_prompt # get_messages initial_state)
           = Inr ''I will update. Action: update_profile''"
    by (simp add: call_llm_def)
  have v: "spec_first_marker (py_lower ''I will update. Action: update_profile'')
           = ''update_profile''"
    by code_simp
  show ?thesis using planner_next_action [OF k c] v by simp
qed

section \<open>The conversation along the graph\<close>

lemma get_messages_cong: "messages st' = messages st \<Longrightarrow> get_messages st' = get_messages st"
  by (simp add: get_messages_def)

lemma set_defaults_messages: "messages (set_defaults st) = messages st"
  by (simp add: set_defaults_def)

lemma ingest_user_messages:
  "ingest_user w st = Inr st' \<Longrightarrow> messages st' = messages st"
  by (auto simp: ingest_user_def set_defaults_messages split: option.splits if_splits sum.splits)

lemma planner_llm_messages:
  "planner_llm rt st = Inr st' \<Longrightarrow>
     \<exists>reply. get_messages st' = get_messages st @ [AIMessage reply]"
  by (auto simp: planner_llm_def Let_def get_messages_def split: sum.splits)

lemma planner_messages:
  "planner rt st = Inr st' \<Longrightarrow> prefix (get_messages st) (get_messages st')"
  by (auto simp: planner_def get_messages_def dest!: planner_llm_messages split: if_splits)

lemma run_tools_messages:
  "run_tools st w = Inr (st', w') \<Longrightarrow> messages st' = messages st"
  by (auto simp: run_tools_def Let_def default_tool_results_def
           split: option.splits if_splits sum.splits prod.splits)

text \<open>
  A return of \<^verbatim>\<open>answer\<close>: the model was called on the two system messages and the
  conversation, it replied, and the state is the given one with that reply appended and
  \<open>done\<close> set.
\<close>

lemma answer_appends:
  "answer rt st = Inr st' \<Longrightarrow>
     \<exists>reply.
       call_llm rt (SystemMessage answer_prompt # SystemMessage (context_content rt st)
                      # get_messages st) = Inr reply \<and>
       st' = st\<lparr>messages := Some (get_messages st @ [AIMessage reply]),
                done_flag := Some True\<rparr>"
  by (auto simp: answer_def Let_def split: sum.splits)

lemma log_episode_node_state:
  "log_episode_node st w = Inr (st', w') \<Longrightarrow> st' = st"
  by (auto simp: log_episode_node_def Let_def split: option.splits sum.splits)

text \<open>The cycle of \<^verbatim>\<open>planner\<close> and \<^verbatim>\<open>run_tools\<close>, by induction on the number of rounds.\<close>

lemma plan_act_messages:
  "plan_act n rt st w = Some (Inr (st', w')) \<Longrightarrow> prefix (get_messages st) (get_messages st')"
proof (induction n arbitrary: st w)
  case 0
  then show ?case by simp
next
  case (Suc n)
  from Suc.prems obtain st1 where p: "planner rt st = Inr st1"
    by (auto split: sum.splits)
  have p1: "prefix (get_messages st) (get_messages st1)"
    using p by (rule planner_messages)
  show ?case
  proof (cases "route st1")
    case None
    with Suc.prems p show ?thesis by simp
  next
    case (Some nd)
    show ?thesis
    proof (cases nd)
      case Answer_node
      with Suc.prems p Some have "st' = st1" by simp
      with p1 show ?thesis by simp
    next
      case Run_tools_node
      with Suc.prems p Some obtain st2 w2 where
        r: "run_tools st1 w = Inr (st2, w2)" and
        l: "plan_act n rt st2 w2 = Some (Inr (st', w'))"
        by (auto split: sum.splits)
      have "get_messages st2 = get_messages st1"
        using r by (intro get_messages_cong run_tools_messages)
      moreover have "prefix (get_messages st2) (get_messages st')"
        using l by (rule Suc.IH)
      ultimately show ?thesis using p1 by (metis prefix_order.trans)
    qed
  qed
qed

text \<open>
  A run that reaches the end, taken apart: \<open>st1\<close> leaves \<^verbatim>\<open>ingest_user\<close>, \<open>st2\<close> is the
  state in which \<^verbatim>\<open>planner\<close> chose the edge to \<^verbatim>\<open>answer\<close>, \<open>reply\<close> is what the model
  returned to the call made by \<^verbatim>\<open>answer\<close> in \<open>st2\<close>, and the returned state is \<open>st2\<close>
  with that reply appended and \<open>done\<close> set.
\<close>

lemma invoke_appends:
  assumes "invoke n rt st w = Some (Inr (st', w'))"
  shows "\<exists>st1 st2 w2 earlier reply.
           ingest_user w st = Inr st1 \<and>
           plan_act n rt st1 w = Some (Inr (st2, w2)) \<and>
           get_messages st2 = get_messages st @ earlier \<and>
           call_llm rt (SystemMessage answer_prompt # SystemMessage (context_content rt st2)
                          # get_messages st2) = Inr reply \<and>
           st' = st2\<lparr>messages := Some (get_messages st @ earlier @ [AIMessage reply]),
                     done_flag := Some True\<rparr>"
proof -
  from assms obtain st1 st2 w2 st3 where
    i: "ingest_user w st = Inr st1" and
    p: "plan_act n rt st1 w = Some (Inr (st2, w2))" and
    a: "answer rt st2 = Inr st3" and
    l: "log_episode_node st3 w2 = Inr (st', w')"
    by (auto simp: invoke_def split: sum.splits option.splits prod.splits)
  have e: "st' = st3" using l by (rule log_episode_node_state)
  have m1: "get_messages st1 = get_messages st"
    using i by (intro get_messages_cong ingest_user_messages)
  from plan_act_messages [OF p] m1 obtain earlier where
    m2: "get_messages st2 = get_messages st @ earlier"
    by (auto simp: prefix_def)
  from answer_appends [OF a] obtain reply where
    c: "call_llm rt (SystemMessage answer_prompt # SystemMessage (context_content rt st2)
                       # get_messages st2) = Inr reply"
    and m3: "st3 = st2\<lparr>messages := Some (get_messages st2 @ [AIMessage reply]),
                        done_flag := Some True\<rparr>"
    by blast
  have "st' = st2\<lparr>messages := Some (get_messages st @ earlier @ [AIMessage reply]),
                   done_flag := Some True\<rparr>"
    using e m2 m3 by simp
  with i p m2 c show ?thesis by blast
qed

lemma invoke_messages:
  assumes "invoke n rt st w = Some (Inr (st', w'))"
  shows "prefix (get_messages st) (get_messages st')"
proof -
  from invoke_appends [OF assms] obtain st2 earlier reply where
    "st' = st2\<lparr>messages := Some (get_messages st @ earlier @ [AIMessage reply]),
              done_flag := Some True\<rparr>"
    by blast
  then show ?thesis by (simp add: get_messages_def)
qed

lemma main_step_messages:
  assumes "main_step n rt line st w = Some (Inr (Go_on st' w'))"
  shows "prefix (get_messages st) (get_messages st')"
proof -
  let ?st = "st\<lparr>messages := Some (get_messages st @ [HumanMessage (py_strip line)])\<rparr>"
  from assms consider "st' = st" | "invoke n rt ?st w = Some (Inr (st', w'))"
    by (auto simp: main_step_def Let_def split: if_splits option.splits sum.splits prod.splits)
  then show ?thesis
  proof cases
    case 1
    then show ?thesis by simp
  next
    case 2
    from invoke_messages [OF 2] show ?thesis
      by (auto simp: get_messages_def prefix_def)
  qed
qed

subsection \<open>The bound on the rounds\<close>

text \<open>
  A run that ends within \<open>n\<close> rounds of \<^verbatim>\<open>planner\<close> ends the same way under every larger
  bound: the bound only cuts runs off, it does not change them.
\<close>

lemma plan_act_more_rounds:
  "plan_act n rt st w = Some r \<Longrightarrow> plan_act (n + k) rt st w = Some r"
proof (induction n arbitrary: st w)
  case 0
  then show ?case by simp
next
  case (Suc n)
  show ?case
  proof (cases "planner rt st")
    case (Inl e)
    with Suc.prems show ?thesis by simp
  next
    case (Inr st1)
    show ?thesis
    proof (cases "route st1")
      case None
      with Suc.prems Inr show ?thesis by simp
    next
      case (Some nd)
      show ?thesis
      proof (cases nd)
        case Answer_node
        with Suc.prems Inr Some show ?thesis by simp
      next
        case Run_tools_node
        show ?thesis
        proof (cases "run_tools st1 w")
          case (Inl e)
          with Suc.prems \<open>planner rt st = Inr st1\<close> Some Run_tools_node show ?thesis by auto
        next
          case (Inr p)
          obtain st2 w2 where p: "p = (st2, w2)" by (cases p)
          have "plan_act n rt st2 w2 = Some r"
            using Suc.prems \<open>planner rt st = Inr st1\<close> Some Run_tools_node Inr p by simp
          then have "plan_act (n + k) rt st2 w2 = Some r" by (rule Suc.IH)
          then show ?thesis
            using \<open>planner rt st = Inr st1\<close> Some Run_tools_node Inr p by simp
        qed
      qed
    qed
  qed
qed

lemma invoke_more_rounds:
  "invoke n rt st w = Some r \<Longrightarrow> invoke (n + k) rt st w = Some r"
  by (auto simp: invoke_def dest: plan_act_more_rounds [where k = k]
           split: sum.splits option.splits prod.splits)

subsection \<open>A turn on the message \<^verbatim>\<open>Hi\<close>\<close>

lemma lower_hi: "py_lower ''Hi'' = ''hi''"
  by code_simp

lemma strip_hi: "py_strip ''Hi'' = ''Hi''"
  by code_simp

lemma no_keyword_hi: "\<not> any_in policy_keywords ''hi''"
  by code_simp

lemma parse_answer: "parse_action (py_lower ''Action: answer'') = ''answer''"
  by code_simp

text \<open>
  With the model that always replies \<^verbatim>\<open>Action: answer\<close>, one round of \<^verbatim>\<open>planner\<close> is
  enough: the profile is loaded, the planner's reply and the answer are appended, and one
  episode is written.
\<close>

lemma invoke_hi:
  "invoke 1 answering_model (initial_state\<lparr>messages := Some (ms @ [HumanMessage ''Hi''])\<rparr>)
     empty_world
   = Some (Inr
       (initial_state\<lparr>messages := Some (ms @ [HumanMessage ''Hi'', AIMessage ''Action: answer'',
                                               AIMessage ''Action: answer'']),
          user_profile := Some (JObj Map.empty), profile_updated := Some False,
          retrieved_policies := Some [], tool_results := Some Map.empty,
          next_action := Some ''answer'', done_flag := Some True\<rparr>,
        empty_world\<lparr>episodes_file :=
          json_dumps_episode ''demo-user-123'' ''Action: answer'' @ [CHR 0x0A]\<rparr>))"
  by (simp add: invoke_def ingest_user_def initial_state_def get_user_profile_tool_def
      load_user_profile_def read_profiles_def set_defaults_def planner_def keyword_router_def
      get_messages_def last_human_def lower_hi no_keyword_hi planner_llm_def call_llm_def
      parse_answer route_def answer_def log_episode_node_def last_ai_def append_episode_def)

text \<open>
  Claim C2. Every run of the graph that reaches its end passed through the \<^verbatim>\<open>answer\<close>
  node: there is a state \<open>st2\<close> in which \<^verbatim>\<open>planner\<close> chose the edge to \<^verbatim>\<open>answer\<close>, whose
  conversation is the given one followed by what the planner added (\<open>earlier\<close>); the model,
  called by \<^verbatim>\<open>answer\<close> on its two system messages and the conversation of \<open>st2\<close>, returned
  \<open>reply\<close>; and the returned state has \<open>done\<close> true and the conversation of \<open>st2\<close> followed
  by the assistant message that carries \<open>reply\<close>. So at least one assistant message, the
  model's reply to the \<^verbatim>\<open>answer\<close> node, was appended to the given conversation.
\<close>

theorem invoke_done:
  assumes "invoke n rt st w = Some (Inr (st', w'))"
  shows "done_flag st' = Some True \<and>
         (\<exists>st1 st2 w2 earlier reply.
            ingest_user w st = Inr st1 \<and>
            plan_act n rt st1 w = Some (Inr (st2, w2)) \<and>
            get_messages st2 = get_messages st @ earlier \<and>
            call_llm rt (SystemMessage answer_prompt # SystemMessage (context_content rt st2)
                           # get_messages st2) = Inr reply \<and>
            get_messages st' = get_messages st @ earlier @ [AIMessage reply])"
proof -
  from invoke_appends [OF assms] obtain st1 st2 w2 earlier reply where
    i: "ingest_user w st = Inr st1" and
    p: "plan_act n rt st1 w = Some (Inr (st2, w2))" and
    m: "get_messages st2 = get_messages st @ earlier" and
    c: "call_llm rt (SystemMessage answer_prompt # SystemMessage (context_content rt st2)
                       # get_messages st2) = Inr reply" and
    e: "st' = st2\<lparr>messages := Some (get_messages st @ earlier @ [AIMessage reply]),
                  done_flag := Some True\<rparr>"
    by blast
  have "done_flag st' = Some True" using e by simp
  moreover have "get_messages st' = get_messages st @ earlier @ [AIMessage reply]"
    using e by (simp add: get_messages_def)
  ultimately show ?thesis using i p m c by blast
qed

text \<open>
  The theorem on the turn that starts from the message \<^verbatim>\<open>Hi\<close>, which reaches the end:
  the last message is the reply \<^verbatim>\<open>Action: answer\<close> of the sample model to the call of the
  \<^verbatim>\<open>answer\<close> node.
\<close>

theorem invoke_done_witness:
  "\<exists>st' w' earlier.
     invoke 1 answering_model (initial_state\<lparr>messages := Some [HumanMessage ''Hi'']\<rparr>)
       empty_world = Some (Inr (st', w')) \<and>
     done_flag st' = Some True \<and>
     get_messages st' = [HumanMessage ''Hi''] @ earlier @ [AIMessage ''Action: answer'']"
proof -
  let ?st = "initial_state\<lparr>messages := Some [HumanMessage ''Hi'']\<rparr>"
  obtain st' w' where
    i: "invoke 1 answering_model ?st empty_world = Some (Inr (st', w'))"
    using invoke_hi [of "[]"] by auto
  from invoke_done [OF i] obtain st2 earlier reply where
    d: "done_flag st' = Some True" and
    c: "call_llm answering_model
          (SystemMessage answer_prompt # SystemMessage (context_content answering_model st2)
             # get_messages st2) = Inr reply" and
    m: "get_messages st' = get_messages ?st @ earlier @ [AIMessage reply]"
    by blast
  have "reply = ''Action: answer''"
    using c by (simp add: call_llm_def)
  then have "get_messages st' = [HumanMessage ''Hi''] @ earlier @ [AIMessage ''Action: answer'']"
    using m by (simp add: get_messages_def)
  with i d show ?thesis by blast
qed

text \<open>
  Claim C9. Each of the five nodes, a whole run of the graph, and a round of the driver's
  loop return a conversation that begins with the conversation they were given:
  \<^verbatim>\<open>ingest_user\<close>, \<^verbatim>\<open>run_tools\<close> and \<^verbatim>\<open>log_episode_node\<close> leave it as it is, and
  \<^verbatim>\<open>planner\<close>, \<^verbatim>\<open>answer\<close>, the graph and the driver only add messages at its end.
\<close>

theorem messages_only_grow:
  "(ingest_user w st = Inr st' \<longrightarrow> get_messages st' = get_messages st) \<and>
   (planner rt st = Inr st' \<longrightarrow> prefix (get_messages st) (get_messages st')) \<and>
   (run_tools st w = Inr (st', w') \<longrightarrow> get_messages st' = get_messages st) \<and>
   (answer rt st = Inr st' \<longrightarrow> prefix (get_messages st) (get_messages st')) \<and>
   (log_episode_node st w = Inr (st', w') \<longrightarrow> get_messages st' = get_messages st) \<and>
   (invoke n rt st w = Some (Inr (st', w')) \<longrightarrow> prefix (get_messages st) (get_messages st')) \<and>
   (main_step n rt line st w = Some (Inr (Go_on st' w'))
      \<longrightarrow> prefix (get_messages st) (get_messages st'))"
proof -
  have "answer rt st = Inr st' \<longrightarrow> prefix (get_messages st) (get_messages st')"
    by (auto dest!: answer_appends simp: get_messages_def)
  moreover have "log_episode_node st w = Inr (st', w') \<longrightarrow> get_messages st' = get_messages st"
    by (auto dest!: log_episode_node_state)
  ultimately show ?thesis
    using ingest_user_messages [of w st st'] planner_messages [of rt st st']
      run_tools_messages [of st w st' w'] invoke_messages [of n rt st w st' w']
      main_step_messages [of n rt line st w st' w'] get_messages_cong [of st' st]
    by blast
qed

text \<open>
  The theorem on a round of the driver that reads \<^verbatim>\<open>Hi\<close> in a session that already
  holds two messages: both are still the first two messages afterwards.
\<close>

theorem messages_only_grow_witness:
  "\<exists>st' w'.
     main_step 1 answering_model ''Hi''
       (initial_state\<lparr>messages := Some [HumanMessage ''Hello'', AIMessage ''Good morning'']\<rparr>)
       empty_world = Some (Inr (Go_on st' w')) \<and>
     prefix [HumanMessage ''Hello'', AIMessage ''Good morning''] (get_messages st')"
proof -
  let ?st = "initial_state\<lparr>messages := Some [HumanMessage ''Hello'', AIMessage ''Good morning'']\<rparr>"
  have "py_lower ''Hi'' \<notin> {''exit'', ''quit'', ''q''}"
    by (simp add: lower_hi)
  then obtain st' w' where
    s: "main_step 1 answering_model ''Hi'' ?st empty_world = Some (Inr (Go_on st' w'))"
    using invoke_hi [of "[HumanMessage ''Hello'', AIMessage ''Good morning'']"]
    by (simp add: main_step_def strip_hi get_messages_def initial_state_def)
  from messages_only_grow [of empty_world ?st st' answering_model w' 1 "''Hi''"] s
  have "prefix (get_messages ?st) (get_messages st')" by blast
  then show ?thesis using s by (auto simp: get_messages_def)
qed

section \<open>Facts about the string operations\<close>

lemma isspace_lower_char: "py_isspace (lower_char c) = py_isspace c"
  by (auto simp: py_isspace_def lower_char_def py_isupper_def Let_def)

lemma py_lower_Nil_iff: "py_lower w = [] \<longleftrightarrow> w = []"
  by (simp add: py_lower_def)

lemma py_lower_snoc: "py_lower (w @ [c]) = py_lower w @ [lower_char c]"
  by (simp add: py_lower_def)

lemma py_lower_Cons: "py_lower (c # s) = lower_char c # py_lower s"
  by (simp add: py_lower_def)

lemma split_acc_lower:
  "split_acc (py_lower w) (py_lower s) = map py_lower (split_acc w s)"
proof (induction s arbitrary: w)
  case Nil
  then show ?case by (simp add: py_lower_def)
next
  case (Cons c s)
  have "split_acc (py_lower (w @ [c])) (py_lower s) = map py_lower (split_acc (w @ [c]) s)"
    by (rule Cons.IH)
  moreover have "split_acc (py_lower []) (py_lower s) = map py_lower (split_acc [] s)"
    by (rule Cons.IH)
  ultimately show ?case
    by (simp add: py_lower_Cons isspace_lower_char py_lower_Nil_iff py_lower_snoc)
       (simp add: py_lower_def)
qed

lemma py_split_lower: "py_split (py_lower s) = map py_lower (py_split s)"
  using split_acc_lower [of "[]" s] by (simp add: py_split_def py_lower_def)

lemma split_acc_Nil_iff: "split_acc w s = [] \<longleftrightarrow> w = [] \<and> (\<forall>c\<in>set s. py_isspace c)"
  by (induction s arbitrary: w) auto

lemma split_acc_spaces_front:
  "\<forall>c\<in>set a. py_isspace c \<Longrightarrow> split_acc [] (a @ s) = split_acc [] s"
  by (induction a) auto

lemma split_acc_spaces_back:
  "\<forall>c\<in>set t. py_isspace c \<Longrightarrow> split_acc w (s @ t) = split_acc w s"
proof (induction s arbitrary: w)
  case Nil
  then show ?case
    by (cases t) (auto simp: split_acc_Nil_iff)
next
  case (Cons c s)
  then show ?case by simp
qed

text \<open>A string is its leading white space, its stripped middle and its trailing white space.\<close>

lemma py_strip_decomp:
  "s = takeWhile py_isspace s @ py_strip s @ rev (takeWhile py_isspace (rev (dropWhile py_isspace s)))"
proof -
  let ?u = "dropWhile py_isspace s"
  have "rev (dropWhile py_isspace (rev ?u)) @ rev (takeWhile py_isspace (rev ?u))
        = rev (takeWhile py_isspace (rev ?u) @ dropWhile py_isspace (rev ?u))"
    by (simp only: rev_append)
  also have "\<dots> = ?u"
    by (simp only: takeWhile_dropWhile_id rev_rev_ident)
  finally have "?u = py_strip s @ rev (takeWhile py_isspace (rev ?u))"
    by (simp only: py_strip_def)
  moreover have "s = takeWhile py_isspace s @ ?u" by simp
  ultimately show ?thesis by metis
qed

lemma py_split_around:
  assumes "\<forall>c\<in>set a. py_isspace c" and "\<forall>c\<in>set t. py_isspace c"
  shows "py_split (a @ s @ t) = py_split s"
proof -
  have "split_acc [] (a @ (s @ t)) = split_acc [] (s @ t)"
    using assms(1) by (rule split_acc_spaces_front)
  also have "\<dots> = split_acc [] s"
    using assms(2) by (rule split_acc_spaces_back)
  finally show ?thesis by (simp add: py_split_def)
qed

lemma takeWhile_all: "\<forall>c\<in>set (takeWhile P s). P c"
  by (auto dest: set_takeWhileD)

lemma py_split_strip: "py_split (py_strip s) = py_split s"
proof -
  let ?a = "takeWhile py_isspace s"
  let ?t = "rev (takeWhile py_isspace (rev (dropWhile py_isspace s)))"
  have "py_split (?a @ py_strip s @ ?t) = py_split (py_strip s)"
    by (rule py_split_around) (auto dest: set_takeWhileD)
  then show ?thesis using py_strip_decomp [of s] by simp
qed

lemma py_split_remove_dots_strip:
  "py_split (remove_dots (py_strip s)) = py_split (remove_dots s)"
proof -
  let ?a = "takeWhile py_isspace s"
  let ?t = "rev (takeWhile py_isspace (rev (dropWhile py_isspace s)))"
  have "remove_dots s = remove_dots (?a @ py_strip s @ ?t)"
    using py_strip_decomp [of s] by simp
  then have "remove_dots s = remove_dots ?a @ remove_dots (py_strip s) @ remove_dots ?t"
    by (simp add: remove_dots_def)
  moreover have "py_split (remove_dots ?a @ remove_dots (py_strip s) @ remove_dots ?t)
                 = py_split (remove_dots (py_strip s))"
    by (rule py_split_around) (auto simp: remove_dots_def dest: set_takeWhileD)
  ultimately show ?thesis by simp
qed

lemma py_lower_strip: "py_lower (py_strip s) = py_strip (py_lower s)"
proof -
  have c: "py_isspace \<circ> lower_char = py_isspace"
    by (simp add: fun_eq_iff isspace_lower_char)
  show ?thesis
    by (simp add: py_lower_def py_strip_def dropWhile_map rev_map c)
qed

lemma sublist_dropWhile:
  assumes "kw \<noteq> []" and "\<not> P (hd kw)"
  shows "sublist kw (dropWhile P s) \<longleftrightarrow> sublist kw s"
proof (induction s)
  case Nil
  then show ?case by simp
next
  case (Cons c s)
  show ?case
  proof (cases "P c")
    case True
    have "\<not> prefix kw (c # s)"
      using assms True by (cases kw) auto
    then show ?thesis using True Cons by (simp add: sublist_Cons_right)
  next
    case False
    then show ?thesis by simp
  qed
qed

lemma sublist_strip:
  assumes "kw \<noteq> []" and "\<not> py_isspace (hd kw)" and "\<not> py_isspace (last kw)"
  shows "sublist kw (py_strip s) \<longleftrightarrow> sublist kw s"
proof -
  let ?u = "dropWhile py_isspace s"
  have "sublist kw (py_strip s) \<longleftrightarrow> sublist (rev kw) (dropWhile py_isspace (rev ?u))"
    unfolding py_strip_def by (metis sublist_rev rev_rev_ident)
  also have "\<dots> \<longleftrightarrow> sublist (rev kw) (rev ?u)"
    using assms by (intro sublist_dropWhile) (auto simp: hd_rev)
  also have "\<dots> \<longleftrightarrow> sublist kw ?u" by simp
  also have "\<dots> \<longleftrightarrow> sublist kw s"
    using assms by (intro sublist_dropWhile) auto
  finally show ?thesis .
qed

lemma favorite_color_strip:
  "py_in ''favorite color'' (py_lower (py_strip s)) = py_in ''favorite color'' (py_lower s)"
  unfolding py_in_def py_lower_strip
  by (rule sublist_strip) (simp_all add: py_isspace_def)

lemma favorite_color_parts:
  assumes "py_in ''favorite color'' (py_lower s)"
  shows "py_split (remove_dots s) \<noteq> []"
proof -
  from assms obtain p q where "py_lower s = p @ ''favorite color'' @ q"
    by (auto simp: py_in_def sublist_def)
  then have "CHR ''f'' \<in> set (py_lower s)" by simp
  then obtain c where c: "c \<in> set s" "lower_char c = CHR ''f''"
    by (auto simp: py_lower_def)
  have "\<not> py_isspace (lower_char c)"
    using c(2) by (simp add: py_isspace_def)
  then have ns: "\<not> py_isspace c" by (simp add: isspace_lower_char)
  have "c \<noteq> CHR ''.''"
    using c(2) by (auto simp: lower_char_def py_isupper_def)
  then have "c \<in> set (remove_dots s)"
    using c(1) by (simp add: remove_dots_def)
  with ns show ?thesis
    by (auto simp: py_split_def split_acc_Nil_iff)
qed

section \<open>Searching the policies\<close>

lemma py_strip_Nil_iff: "py_strip s = [] \<longleftrightarrow> (\<forall>c\<in>set s. py_isspace c)"
proof -
  have "py_strip s = [] \<longleftrightarrow> (\<forall>c\<in>set (dropWhile py_isspace s). py_isspace c)"
    by (simp add: py_strip_def dropWhile_eq_Nil_conv)
  also have "\<dots> \<longleftrightarrow> dropWhile py_isspace s = []"
    by (metis dropWhile_eq_Nil_conv dropWhile_idem)
  finally show ?thesis by (simp add: dropWhile_eq_Nil_conv)
qed

lemma scan_policies_sound:
  assumes "\<forall>d\<in>set docs. P d"
    and "\<And>path body. (path, Some body) \<in> set files \<Longrightarrow> any_in kws (py_lower body)
           \<Longrightarrow> P \<lparr>page_content = body, source = path\<rparr>"
  shows "\<forall>d\<in>set (scan_policies kws top_k files docs). P d"
  using assms
proof (induction kws top_k files docs rule: scan_policies.induct)
  case (1 kws top_k docs)
  then show ?case by simp
next
  case (2 kws top_k path files docs)
  then show ?case by simp
next
  case (3 kws top_k path body files docs)
  let ?docs' = "if any_in kws (py_lower body)
                then docs @ [\<lparr>page_content = body, source = path\<rparr>] else docs"
  have d': "\<forall>d\<in>set ?docs'. P d"
    using "3.prems" by auto
  show ?case
  proof (cases "int (length ?docs') \<ge> top_k")
    case True
    then show ?thesis using d' by (simp add: Let_def)
  next
    case False
    have "\<forall>d\<in>set (scan_policies kws top_k files ?docs'). P d"
      using False d' "3.prems"(2) by (intro "3.IH") auto
    then show ?thesis using False by (simp add: Let_def)
  qed
qed

lemma scan_policies_length:
  assumes "int (length docs) < top_k"
  shows "int (length (scan_policies kws top_k files docs)) \<le> top_k"
  using assms
proof (induction kws top_k files docs rule: scan_policies.induct)
  case (1 kws top_k docs)
  then show ?case by simp
next
  case (2 kws top_k path files docs)
  then show ?case by simp
next
  case (3 kws top_k path body files docs)
  let ?docs' = "if any_in kws (py_lower body)
                then docs @ [\<lparr>page_content = body, source = path\<rparr>] else docs"
  have le: "int (length ?docs') \<le> top_k" using "3.prems" by auto
  show ?case
  proof (cases "int (length ?docs') \<ge> top_k")
    case True
    then show ?thesis using le by (simp add: Let_def)
  next
    case False
    then have "int (length (scan_policies kws top_k files ?docs')) \<le> top_k"
      by (intro "3.IH") auto
    then show ?thesis using False by (simp add: Let_def)
  qed
qed

text \<open>
  Claim C4, as the code has it. When the query is empty or white space only,
  \<^verbatim>\<open>search_policies\<close> returns no document. Every document it returns is a readable file
  of the policy directory whose lowered text contains one of the keywords of the
  normalised query: the words longer than 3 characters, with \<^verbatim>\<open>.,?!\<close> stripped from both
  ends, or the whole normalised query when there is no such word. When the limit is at
  least 1, the result has no more documents than the limit.
\<close>

theorem search_policies_sound:
  "((\<forall>c\<in>set query. py_isspace c) \<longrightarrow> search_policies w query top_k = []) \<and>
   (\<forall>d\<in>set (search_policies w query top_k).
      (source d, Some (page_content d)) \<in> set (policy_dir w) \<and>
      any_in (keywords_of (py_lower (py_strip query))) (py_lower (page_content d))) \<and>
   (1 \<le> top_k \<longrightarrow> int (length (search_policies w query top_k)) \<le> top_k)"
proof (intro conjI impI)
  assume "\<forall>c\<in>set query. py_isspace c"
  then have "py_strip query = []" by (simp add: py_strip_Nil_iff)
  then show "search_policies w query top_k = []"
    by (simp add: search_policies_def py_lower_def)
next
  let ?kws = "keywords_of (py_lower (py_strip query))"
  let ?P = "\<lambda>d. (source d, Some (page_content d)) \<in> set (policy_dir w) \<and>
                any_in ?kws (py_lower (page_content d))"
  have "\<forall>d\<in>set (scan_policies ?kws top_k (policy_dir w) []). ?P d"
    by (rule scan_policies_sound) auto
  then show "\<forall>d\<in>set (search_policies w query top_k). ?P d"
    by (simp add: search_policies_def Let_def)
next
  assume "1 \<le> top_k"
  then have "int (length (scan_policies kws top_k (policy_dir w) [])) \<le> top_k" for kws
    by (intro scan_policies_length) simp
  then show "int (length (search_policies w query top_k)) \<le> top_k"
    using \<open>1 \<le> top_k\<close> by (simp add: search_policies_def Let_def)
qed

text \<open>
  The theorem on the two sample files: a query of blanks finds nothing, and the question
  about the refund policy, with limit 3, finds the refund file, which contains a keyword
  of the question.
\<close>

theorem search_policies_sound_witness:
  "search_policies refund_world ''   '' 3 = [] \<and>
   int (length (search_policies refund_world ''What is the refund policy?'' 3)) \<le> 3 \<and>
   (''policies/refund.txt'', Some ''What is refunded and when'') \<in> set (policy_dir refund_world) \<and>
   any_in (keywords_of (py_lower (py_strip ''What is the refund policy?'')))
     (py_lower ''What is refunded and when'')"
proof -
  let ?q = "''What is the refund policy?''"
  let ?d = "\<lparr>page_content = ''What is refunded and when'', source = ''policies/refund.txt''\<rparr>"
  have blank: "\<forall>c\<in>set ''   ''. py_isspace c"
    by (simp add: py_isspace_def)
  have found: "search_policies refund_world ?q 3 = [?d]"
    by code_simp
  have a: "search_policies refund_world ''   '' 3 = []"
    using search_policies_sound [of "''   ''" refund_world 3] blank by blast
  have b: "int (length (search_policies refund_world ?q 3)) \<le> 3"
    using search_policies_sound [of ?q refund_world 3] by simp
  have "?d \<in> set (search_policies refund_world ?q 3)"
    using found by simp
  then have c: "(source ?d, Some (page_content ?d)) \<in> set (policy_dir refund_world) \<and>
      any_in (keywords_of (py_lower (py_strip ?q))) (py_lower (page_content ?d))"
    using search_policies_sound [of ?q refund_world 3] by blast
  show ?thesis using a b c by simp
qed

text \<open>
  Claim C4 as it is written takes the keywords with only trailing \<^verbatim>\<open>.,?!\<close> stripped, and
  bounds the result by the limit, whatever the limit. For the query \<^verbatim>\<open>?what\<close> the only
  keyword in that sense is \<^verbatim>\<open>?what\<close>; the code strips the leading \<^verbatim>\<open>?\<close> too, searches for
  \<^verbatim>\<open>what\<close>, and returns the refund file, whose lowered text does not contain \<^verbatim>\<open>?what\<close>.
  With limit 0 the same query returns one document.
\<close>

theorem search_policies_leading_punctuation:
  "search_policies refund_world ''?what'' 3 =
     [\<lparr>page_content = ''What is refunded and when'', source = ''policies/refund.txt''\<rparr>] \<and>
   spec_keywords (py_lower (py_strip ''?what'')) = [''?what''] \<and>
   \<not> py_in ''?what'' (py_lower ''What is refunded and when'') \<and>
   search_policies refund_world ''?what'' 0 =
     [\<lparr>page_content = ''What is refunded and when'', source = ''policies/refund.txt''\<rparr>]"
proof -
  have "search_policies refund_world ''?what'' 3 =
     [\<lparr>page_content = ''What is refunded and when'', source = ''policies/refund.txt''\<rparr>]"
    by code_simp
  moreover have "spec_keywords (py_lower (py_strip ''?what'')) = [''?what'']"
    by code_simp
  moreover have "\<not> py_in ''?what'' (py_lower ''What is refunded and when'')"
    by code_simp
  moreover have "search_policies refund_world ''?what'' 0 =
     [\<lparr>page_content = ''What is refunded and when'', source = ''policies/refund.txt''\<rparr>]"
    by code_simp
  ultimately show ?thesis by blast
qed

subsection \<open>A word of punctuation only\<close>

lemma lower_punct: "set tok \<subseteq> set ''.,?!'' \<Longrightarrow> py_lower tok = tok"
proof -
  assume a: "set tok \<subseteq> set ''.,?!''"
  have "lower_char c = c" if "c \<in> set tok" for c
    using that a by (auto simp: lower_char_def py_isupper_def)
  then show ?thesis by (simp add: py_lower_def map_idI)
qed

lemma strip_punct: "set tok \<subseteq> set chars \<Longrightarrow> py_strip_chars chars tok = []"
proof -
  assume "set tok \<subseteq> set chars"
  then have d: "dropWhile (\<lambda>c. c \<in> set chars) tok = []"
    by (induction tok) auto
  show ?thesis unfolding py_strip_chars_def d by simp
qed

lemma empty_keyword:
  assumes "tok \<in> set (py_split query)" and "3 < length tok" and "set tok \<subseteq> set ''.,?!''"
  shows "[] \<in> set (keywords_of (py_lower (py_strip query)))"
proof -
  have "py_split (py_lower (py_strip query)) = map py_lower (py_split query)"
    by (simp add: py_split_lower py_split_strip)
  moreover have "py_lower tok = tok" using assms(3) by (rule lower_punct)
  ultimately have t: "tok \<in> set (py_split (py_lower (py_strip query)))"
    using assms(1) by force
  let ?long = "filter (\<lambda>w. length w > 3) (py_split (py_lower (py_strip query)))"
  have "tok \<in> set ?long" using t assms(2) by simp
  then have "py_strip_chars ''.,?!'' tok \<in> set (map (py_strip_chars ''.,?!'') ?long)"
    by simp
  moreover have "py_strip_chars ''.,?!'' tok = []" using assms(3) by (rule strip_punct)
  ultimately have e: "[] \<in> set (map (py_strip_chars ''.,?!'') ?long)" by simp
  then have "map (py_strip_chars ''.,?!'') ?long \<noteq> []" by force
  with e show ?thesis
    by (simp add: keywords_of_def Let_def)
qed

lemma any_in_empty_keyword: "[] \<in> set kws \<Longrightarrow> any_in kws t"
  by (auto simp: any_in_def py_in_def list_ex_iff)

lemma scan_policies_all:
  assumes "[] \<in> set kws" and "int (length docs) < top_k"
  shows "scan_policies kws top_k files docs = take (nat top_k) (docs @ readable_docs files)"
  using assms
proof (induction kws top_k files docs rule: scan_policies.induct)
  case (1 kws top_k docs)
  then show ?case by simp
next
  case (2 kws top_k path files docs)
  then show ?case by simp
next
  case (3 kws top_k path body files docs)
  let ?d = "\<lparr>page_content = body, source = path\<rparr>"
  have m: "any_in kws (py_lower body)"
    using "3.prems"(1) by (rule any_in_empty_keyword)
  show ?case
  proof (cases "int (length (docs @ [?d])) \<ge> top_k")
    case True
    then have "scan_policies kws top_k ((path, Some body) # files) docs = docs @ [?d]"
      using m by (simp add: Let_def)
    moreover have "nat top_k = Suc (length docs)"
      using True "3.prems"(2) by simp
    ultimately show ?thesis by simp
  next
    case False
    then have "scan_policies kws top_k files (docs @ [?d])
               = take (nat top_k) ((docs @ [?d]) @ readable_docs files)"
      using m "3.prems"(1) by (intro "3.IH") auto
    then show ?thesis using False m by (simp add: Let_def)
  qed
qed

text \<open>
  Claim C10. Let the query have a word of more than 3 characters, all of them among
  \<^verbatim>\<open>.,?!\<close>. Then the empty string is among the keywords of the normalised query; the
  empty string occurs in every text, so every file that can be read matches, whatever it
  holds; and for every limit of at least 1 (the program's only call uses the default 3)
  the result is exactly the first \<open>top_k\<close> readable files, in the order of the directory
  listing.
\<close>

theorem search_policies_empty_keyword:
  assumes "tok \<in> set (py_split query)" and "3 < length tok" and "set tok \<subseteq> set ''.,?!''"
    and "1 \<le> top_k"
  shows "[] \<in> set (keywords_of (py_lower (py_strip query))) \<and>
         search_policies w query top_k = take (nat top_k) (readable_docs (policy_dir w))"
proof -
  have k: "[] \<in> set (keywords_of (py_lower (py_strip query)))"
    using assms(1-3) by (rule empty_keyword)
  have "py_split (py_strip query) \<noteq> []"
    using assms(1) by (auto simp: py_split_strip)
  then have "py_strip query \<noteq> []"
    by (auto simp: py_split_def)
  then have ne: "py_lower (py_strip query) \<noteq> []"
    by (simp add: py_lower_def)
  have "scan_policies (keywords_of (py_lower (py_strip query))) top_k (policy_dir w) []
        = take (nat top_k) ([] @ readable_docs (policy_dir w))"
    using k assms(4) by (intro scan_policies_all) auto
  then show ?thesis using k ne by (simp add: search_policies_def Let_def)
qed

text \<open>
  The theorem on the query \<^verbatim>\<open>Really ????\<close> with the default limit and the two sample files:
  neither file contains a word of the query, and both are returned, in the order of the
  listing.
\<close>

theorem search_policies_empty_keyword_witness:
  "[] \<in> set (keywords_of (py_lower (py_strip ''Really ????''))) \<and>
   \<not> py_in ''really'' (py_lower ''What is refunded and when'') \<and>
   \<not> py_in ''really'' (py_lower ''Loans are repaid monthly'') \<and>
   search_policies refund_world ''Really ????'' 3 =
     [\<lparr>page_content = ''What is refunded and when'', source = ''policies/refund.txt''\<rparr>,
      \<lparr>page_content = ''Loans are repaid monthly'', source = ''policies/loan.txt''\<rparr>]"
proof -
  have t: "''????'' \<in> set (py_split ''Really ????'')"
    by code_simp
  have l: "3 < length ''????''" by simp
  have p: "set ''????'' \<subseteq> set ''.,?!''" by simp
  have k: "(1::int) \<le> 3" by simp
  have a: "\<not> py_in ''really'' (py_lower ''What is refunded and when'')"
    by code_simp
  have b: "\<not> py_in ''really'' (py_lower ''Loans are repaid monthly'')"
    by code_simp
  from search_policies_empty_keyword [OF t l p k, of refund_world] a b
  show ?thesis by simp
qed

section \<open>Recording the favourite colour\<close>

text \<open>
  \<^verbatim>\<open>run_tools\<close> runs after \<^verbatim>\<open>ingest_user\<close>, which gives \<open>tool_results\<close> a value that
  \<^verbatim>\<open>planner\<close> keeps; so the last \<^verbatim>\<open>setdefault\<close> of \<^verbatim>\<open>run_tools\<close> changes nothing there.
\<close>

lemma ingest_user_tool_results: "ingest_user w st = Inr st' \<Longrightarrow> tool_results st' \<noteq> None"
  by (auto simp: ingest_user_def set_defaults_def split: option.splits if_splits sum.splits)

lemma planner_tool_results: "planner rt st = Inr st' \<Longrightarrow> tool_results st' = tool_results st"
  by (auto simp: planner_def planner_llm_def Let_def split: if_splits sum.splits)

lemma run_tools_tool_results: "run_tools st w = Inr (st', w') \<Longrightarrow> tool_results st' \<noteq> None"
  by (auto simp: run_tools_def Let_def default_tool_results_def
           split: option.splits if_splits sum.splits prod.splits)

lemma update_user_profile_tool_returns:
  assumes "load_user_profile w uid = Inr (JObj old)" and "writable w"
  shows "\<exists>w'. update_user_profile_tool w uid new_fields = Inr (JObj (old ++ new_fields), w')"
proof -
  from assms(1) obtain profiles where
    "read_profiles (profiles_file w) = Inr (JObj profiles)"
    by (auto simp: load_user_profile_def split: sum.splits json.splits)
  then have "\<exists>w'. save_user_profile w uid (JObj (old ++ new_fields)) = Inr w'"
    using assms(2) by (simp add: save_user_profile_def)
  then show ?thesis
    using assms(1) by (auto simp: update_user_profile_tool_def Let_def)
qed

lemma extract_fields_favorite_color:
  assumes "py_in ''favorite color'' (py_lower (content m))"
  shows "extract_fields (Some m)
         = [''favorite_color'' \<mapsto> JStr (last (py_split (remove_dots (content m))))]"
proof -
  have "py_in ''favorite color'' (py_lower (py_strip (content m)))"
    using assms by (simp add: favorite_color_strip)
  moreover have "py_split (remove_dots (py_strip (content m))) \<noteq> []"
    using assms by (simp add: py_split_remove_dots_strip favorite_color_parts)
  ultimately show ?thesis
    by (simp add: extract_fields_def Let_def py_split_remove_dots_strip)
qed

lemma extract_fields_other:
  assumes "\<not> py_in ''favorite color'' (py_lower (content m))"
  shows "extract_fields (Some m) = Map.empty"
  using assms by (simp add: extract_fields_def Let_def favorite_color_strip)

lemma default_tool_results_id: "tool_results st \<noteq> None \<Longrightarrow> default_tool_results st = st"
  by (auto simp: default_tool_results_def)

lemma blue_phrase: "py_in ''favorite color'' (py_lower ''My favorite color is blue.'')"
  by code_simp

lemma blue_value: "last (py_split (remove_dots ''My favorite color is blue.'')) = ''blue''"
  by code_simp

text \<open>
  Claim C7. Let \<^verbatim>\<open>run_tools\<close> run with \<open>next_action\<close> \<^verbatim>\<open>update_profile\<close>, a user id, a most
  recent user message \<open>m\<close>, and \<open>tool_results\<close> set. If the lowered text of \<open>m\<close> contains
  \<^verbatim>\<open>favorite color\<close>, then \<^verbatim>\<open>update_user_profile_tool\<close> is called with the single field
  \<^verbatim>\<open>favorite_color\<close>, its value the last word of the text of \<open>m\<close> with every \<^verbatim>\<open>.\<close> removed;
  what it raises leaves \<^verbatim>\<open>run_tools\<close>, and what it returns becomes \<open>user_profile\<close>, with
  \<open>profile_updated\<close> true and nothing else changed. If the phrase is absent, state and
  files are returned as they came. For the message \<^verbatim>\<open>My favorite color is blue.\<close>, on a
  store that loads and can be written, the resulting \<open>user_profile\<close> is the stored profile
  with \<^verbatim>\<open>favorite_color\<close> set to \<^verbatim>\<open>blue\<close>, and \<open>profile_updated\<close> is true.
\<close>

theorem run_tools_update_profile:
  assumes "next_action st = Some ''update_profile''" and "user_id st = Some uid"
    and "last_human (get_messages st) = Some m" and "tool_results st \<noteq> None"
  shows "(py_in ''favorite color'' (py_lower (content m)) \<longrightarrow>
            run_tools st w =
              (case update_user_profile_tool w uid
                      [''favorite_color'' \<mapsto> JStr (last (py_split (remove_dots (content m))))] of
                 Inl e \<Rightarrow> Inl e
               | Inr (merged, w') \<Rightarrow>
                   Inr (st\<lparr>user_profile := Some merged, profile_updated := Some True\<rparr>, w'))) \<and>
         (\<not> py_in ''favorite color'' (py_lower (content m)) \<longrightarrow> run_tools st w = Inr (st, w)) \<and>
         (content m = ''My favorite color is blue.'' \<and>
          load_user_profile w uid = Inr (JObj old) \<and> writable w \<longrightarrow>
            (\<exists>st' w'. run_tools st w = Inr (st', w') \<and>
               user_profile st' = Some (JObj (old(''favorite_color'' \<mapsto> JStr ''blue''))) \<and>
               profile_updated st' = Some True))"
proof -
  let ?nf = "[''favorite_color'' \<mapsto> JStr (last (py_split (remove_dots (content m))))]"
  have yes: "run_tools st w =
      (case update_user_profile_tool w uid ?nf of
         Inl e \<Rightarrow> Inl e
       | Inr (merged, w') \<Rightarrow>
           Inr (st\<lparr>user_profile := Some merged, profile_updated := Some True\<rparr>, w'))"
    if p: "py_in ''favorite color'' (py_lower (content m))"
  proof -
    have "extract_fields (Some m) = ?nf"
      using p by (rule extract_fields_favorite_color)
    then show ?thesis
      using assms
      by (simp add: run_tools_def Let_def default_tool_results_def
               split: sum.splits prod.splits option.splits)
  qed
  have no: "run_tools st w = Inr (st, w)"
    if "\<not> py_in ''favorite color'' (py_lower (content m))"
    using extract_fields_other [OF that] assms
    by (simp add: run_tools_def Let_def default_tool_results_id)
  have blue: "\<exists>st' w'. run_tools st w = Inr (st', w') \<and>
       user_profile st' = Some (JObj (old(''favorite_color'' \<mapsto> JStr ''blue''))) \<and>
       profile_updated st' = Some True"
    if c: "content m = ''My favorite color is blue.''"
      and l: "load_user_profile w uid = Inr (JObj old)" and wr: "writable w"
  proof -
    have p: "py_in ''favorite color'' (py_lower (content m))"
      using c blue_phrase by simp
    have v: "last (py_split (remove_dots (content m))) = ''blue''"
      using c blue_value by simp
    from update_user_profile_tool_returns [OF l wr, of "[''favorite_color'' \<mapsto> JStr ''blue'']"]
    obtain w' where
      "update_user_profile_tool w uid [''favorite_color'' \<mapsto> JStr ''blue'']
       = Inr (JObj (old(''favorite_color'' \<mapsto> JStr ''blue'')), w')"
      by auto
    then show ?thesis using yes [OF p] v by simp
  qed
  from yes no blue show ?thesis by blast
qed

text \<open>
  The theorem in the first session of the demo user, after the planner's reply
  \<^verbatim>\<open>Action: update_profile\<close> to the message about the colour blue, with no profile stored.
\<close>

theorem run_tools_update_profile_witness:
  "\<exists>st' w'.
     run_tools
       (initial_state\<lparr>messages := Some [HumanMessage ''My favorite color is blue.'',
                                        AIMessage ''Action: update_profile''],
                      tool_results := Some Map.empty,
                      next_action := Some ''update_profile''\<rparr>)
       empty_world = Inr (st', w') \<and>
     user_profile st' = Some (JObj [''favorite_color'' \<mapsto> JStr ''blue'']) \<and>
     profile_updated st' = Some True"
proof -
  let ?st = "initial_state\<lparr>messages := Some [HumanMessage ''My favorite color is blue.'',
                                             AIMessage ''Action: update_profile''],
                           tool_results := Some Map.empty,
                           next_action := Some ''update_profile''\<rparr>"
  have a: "next_action ?st = Some ''update_profile''" by simp
  have b: "user_id ?st = Some ''demo-user-123''" by (simp add: initial_state_def)
  have c: "last_human (get_messages ?st) = Some (HumanMessage ''My favorite color is blue.'')"
    by (simp add: last_human_def get_messages_def)
  have d: "tool_results ?st \<noteq> None" by simp
  have l: "load_user_profile empty_world ''demo-user-123'' = Inr (JObj Map.empty)"
    by (simp add: load_user_profile_def read_profiles_def)
  from run_tools_update_profile [OF a b c d, of empty_world Map.empty] l
  show ?thesis by simp
qed

section \<open>The episode log\<close>

subsection \<open>Reading back what \<^verbatim>\<open>json.dumps\<close> wrote\<close>

lemma hex_value_hex_digit: "d < 16 \<Longrightarrow> hex_value (hex_digit d) = Some d"
  by (auto simp: hex_value_def hex_digit_def Let_def)

lemma hex_value_zero: "hex_value (CHR ''0'') = Some 0"
  by (simp add: hex_value_def)

lemma hex4_char:
  "hex4 (CHR ''0'') (CHR ''0'') (hex_digit (of_char c div 16)) (hex_digit (of_char c mod 16)) = Some c"
proof -
  have "(of_char c :: nat) div 16 < 16"
    by (rule less_mult_imp_div_less) simp
  then have "hex_value (hex_digit (of_char c div 16)) = Some (of_char c div 16)"
    by (rule hex_value_hex_digit)
  moreover have "hex_value (hex_digit (of_char c mod 16)) = Some (of_char c mod 16)"
    by (rule hex_value_hex_digit) simp
  moreover have "16 * ((of_char c :: nat) div 16) + of_char c mod 16 = of_char c"
    by simp
  ultimately show ?thesis
    by (simp add: hex4_def hex_value_zero)
qed

lemma newline_hex_digit: "d < 16 \<Longrightarrow> hex_digit d \<noteq> CHR 0x0A"
proof -
  assume "d < 16"
  then have "(of_char (hex_digit d) :: nat) \<noteq> of_char (CHR 0x0A)"
    by (auto simp: hex_digit_def)
  then show ?thesis by auto
qed

lemma json_string_body_escape:
  "json_string_body (json_escape_char c @ rest) = cons_str c (json_string_body rest)"
proof -
  consider (quote) "c = CHR 0x22" | (backslash) "c = CHR 0x5C" | (nl) "c = CHR 0x0A"
    | (cr) "c = CHR 0x0D" | (tab) "c = CHR 0x09" | (bs) "c = CHR 0x08" | (ff) "c = CHR 0x0C"
    | (hex) "c \<notin> {CHR 0x22, CHR 0x5C, CHR 0x0A, CHR 0x0D, CHR 0x09, CHR 0x08, CHR 0x0C}"
        "(of_char c :: nat) < 32 \<or> 126 < (of_char c :: nat)"
    | (plain) "c \<notin> {CHR 0x22, CHR 0x5C, CHR 0x0A, CHR 0x0D, CHR 0x09, CHR 0x08, CHR 0x0C}"
        "\<not> ((of_char c :: nat) < 32 \<or> 126 < (of_char c :: nat))"
    by blast
  then show ?thesis
  proof cases
    case hex
    then show ?thesis
      by (simp add: json_escape_char_def hex4_char)
  next
    case plain
    then show ?thesis
      by (simp add: json_escape_char_def)
  qed (simp_all add: json_escape_char_def unescape_def)
qed

lemma json_string_body_escaped:
  "json_string_body (concat (map json_escape_char s) @ CHR 0x22 # rest) = Some (s, rest)"
proof (induction s)
  case Nil
  then show ?case by simp
next
  case (Cons c s)
  have "json_string_body (concat (map json_escape_char (c # s)) @ CHR 0x22 # rest)
        = json_string_body (json_escape_char c @ (concat (map json_escape_char s) @ CHR 0x22 # rest))"
    by simp
  also have "\<dots> = cons_str c (json_string_body (concat (map json_escape_char s) @ CHR 0x22 # rest))"
    by (rule json_string_body_escape)
  also have "\<dots> = Some (c # s, rest)"
    by (simp add: Cons.IH cons_str_def)
  finally show ?case .
qed

lemma expect_append: "expect p (p @ s) = Some s"
  by (simp add: expect_def)

lemma parse_episode_dumps: "parse_episode (json_dumps_episode uid summary) = Some (uid, summary)"
proof -
  let ?p1 = "[CHR ''{''] @ json_dumps_str ''user_id'' @ '': '' @ [CHR 0x22]"
  let ?p2 = "'', '' @ json_dumps_str ''summary'' @ '': '' @ [CHR 0x22]"
  let ?r3 = "concat (map json_escape_char summary) @ CHR 0x22 # [CHR ''}'']"
  let ?r2 = "?p2 @ ?r3"
  let ?r1 = "concat (map json_escape_char uid) @ CHR 0x22 # ?r2"
  have d: "json_dumps_episode uid summary = ?p1 @ ?r1"
    by (simp add: json_dumps_episode_def json_dumps_str_def)
  have e1: "expect ?p1 (?p1 @ ?r1) = Some ?r1" by (rule expect_append)
  have b1: "json_string_body ?r1 = Some (uid, ?r2)" by (rule json_string_body_escaped)
  have e2: "expect ?p2 ?r2 = Some ?r3" by (rule expect_append)
  have b2: "json_string_body ?r3 = Some (summary, [CHR ''}''])" by (rule json_string_body_escaped)
  show ?thesis
    apply (simp only: parse_episode_def d)
    apply (simp only: e1 option.case)
    apply (simp only: b1 option.case prod.case)
    apply (simp only: e2 option.case)
    apply (simp only: b2 option.case prod.case)
    apply simp
    done
qed

lemma newline_escape_char: "CHR 0x0A \<notin> set (json_escape_char c)"
proof -
  have "hex_digit (of_char c div 16) \<noteq> CHR 0x0A"
    by (intro newline_hex_digit less_mult_imp_div_less) simp
  moreover have "hex_digit (of_char c mod 16) \<noteq> CHR 0x0A"
    by (intro newline_hex_digit) simp
  ultimately show ?thesis
    by (auto simp: json_escape_char_def)
qed

lemma newline_dumps_str: "CHR 0x0A \<notin> set (json_dumps_str s)"
  by (auto simp: json_dumps_str_def newline_escape_char)

lemma newline_dumps_episode: "CHR 0x0A \<notin> set (json_dumps_episode uid summary)"
  by (simp add: json_dumps_episode_def newline_dumps_str)


subsection \<open>The lines of the log\<close>

lemma lines_acc_line:
  "CHR 0x0A \<notin> set l \<Longrightarrow> lines_acc cur (l @ CHR 0x0A # rest) = (cur @ l) # lines_acc [] rest"
  by (induction l arbitrary: cur) auto

lemma lines_acc_closed:
  "lines_acc cur (t @ CHR 0x0A # later) = lines_acc cur (t @ [CHR 0x0A]) @ lines_acc [] later"
  by (induction t arbitrary: cur) auto

lemma file_lines_append:
  assumes "complete_lines t"
  shows "file_lines (t @ later) = file_lines t @ file_lines later"
proof (cases "t = []")
  case True
  then show ?thesis by (simp add: file_lines_def)
next
  case False
  with assms have "t = butlast t @ [CHR 0x0A]"
    by (metis complete_lines_def append_butlast_last_id)
  then obtain b where b: "t = b @ [CHR 0x0A]" ..
  have "lines_acc [] (b @ CHR 0x0A # later) = lines_acc [] (b @ [CHR 0x0A]) @ lines_acc [] later"
    by (rule lines_acc_closed)
  then show ?thesis by (simp add: file_lines_def b)
qed

lemma file_lines_one:
  "CHR 0x0A \<notin> set l \<Longrightarrow> file_lines (l @ [CHR 0x0A]) = [l]"
  using lines_acc_line [of l "[]" "[]"] by (simp add: file_lines_def)

lemma complete_lines_append: "complete_lines (t @ l @ [CHR 0x0A])"
  by (simp add: complete_lines_def)

text \<open>What one call does to the log: the old text, the encoded record, a newline.\<close>

lemma append_episode_file:
  "append_episode w uid summary = Inr w' \<Longrightarrow>
     episodes_file w' = episodes_file w @ json_dumps_episode uid summary @ [CHR 0x0A] \<and>
     writable w' = writable w"
  by (auto simp: append_episode_def split: if_splits)

lemma append_episode_lines:
  assumes "append_episode w uid summary = Inr w'" and "complete_lines (episodes_file w)"
  shows "file_lines (episodes_file w') = file_lines (episodes_file w) @ [json_dumps_episode uid summary]
         \<and> complete_lines (episodes_file w')"
proof -
  have f: "episodes_file w' = episodes_file w @ json_dumps_episode uid summary @ [CHR 0x0A]"
    using assms(1) by (simp add: append_episode_file)
  have "file_lines (episodes_file w') =
        file_lines (episodes_file w) @ file_lines (json_dumps_episode uid summary @ [CHR 0x0A])"
    unfolding f using assms(2) by (rule file_lines_append)
  then show ?thesis
    by (simp add: f file_lines_one newline_dumps_episode complete_lines_append)
qed

lemma append_episodes_returns:
  "writable w \<Longrightarrow> \<exists>w'. append_episodes w calls = Inr w'"
proof (induction calls arbitrary: w)
  case Nil
  then show ?case by simp
next
  case (Cons call calls)
  obtain uid summary where c: "call = (uid, summary)" by (cases call)
  let ?w1 = "w\<lparr>episodes_file := episodes_file w @ json_dumps_episode uid summary @ [CHR 0x0A]\<rparr>"
  have "append_episode w uid summary = Inr ?w1"
    using Cons.prems by (simp add: append_episode_def)
  moreover have "\<exists>w'. append_episodes ?w1 calls = Inr w'"
    using Cons.prems by (intro Cons.IH) simp
  ultimately show ?case by (simp add: c)
qed

lemma append_episodes_lines:
  assumes "append_episodes w calls = Inr w'" and "complete_lines (episodes_file w)"
  shows "file_lines (episodes_file w') =
           file_lines (episodes_file w) @ map (\<lambda>(uid, summary). json_dumps_episode uid summary) calls
         \<and> prefix (episodes_file w) (episodes_file w')
         \<and> complete_lines (episodes_file w')"
  using assms
proof (induction calls arbitrary: w)
  case Nil
  then show ?case by simp
next
  case (Cons call calls)
  obtain uid summary where c: "call = (uid, summary)" by (cases call)
  from Cons.prems(1) obtain w1 where
    a: "append_episode w uid summary = Inr w1" and r: "append_episodes w1 calls = Inr w'"
    by (auto simp: c split: sum.splits)
  from append_episode_lines [OF a Cons.prems(2)] have
    l1: "file_lines (episodes_file w1) = file_lines (episodes_file w) @ [json_dumps_episode uid summary]"
    and c1: "complete_lines (episodes_file w1)"
    by simp_all
  from Cons.IH [OF r c1] have
    l2: "file_lines (episodes_file w') =
           file_lines (episodes_file w1) @ map (\<lambda>(uid, summary). json_dumps_episode uid summary) calls"
    and p2: "prefix (episodes_file w1) (episodes_file w')"
    and c2: "complete_lines (episodes_file w')"
    by simp_all
  have "prefix (episodes_file w) (episodes_file w1)"
    using a by (simp add: append_episode_file)
  with p2 have "prefix (episodes_file w) (episodes_file w')"
    by (metis prefix_order.trans)
  then show ?case using l1 l2 c2 by (simp add: c)
qed

text \<open>
  Claim C8. Let the log consist of complete lines (it is empty, or ends with a newline; an
  empty log is so, and every call leaves it so) and let writing succeed. Then every
  sequence of \<open>N\<close> calls of \<^verbatim>\<open>append_episode\<close> returns, and afterwards: the log has exactly
  \<open>N\<close> more lines; the lines it had come first, unchanged, and the old text is the beginning
  of the new text; the \<open>N\<close> new lines, each read on its own as a JSON object, give the
  \<^verbatim>\<open>user_id\<close> and \<^verbatim>\<open>summary\<close> of the \<open>N\<close> calls, in the order of the calls; and the log
  again consists of complete lines.
\<close>

theorem append_episodes_log:
  assumes "writable w" and "complete_lines (episodes_file w)"
  shows "\<exists>w'. append_episodes w calls = Inr w' \<and>
           length (file_lines (episodes_file w')) =
             length (file_lines (episodes_file w)) + length calls \<and>
           take (length (file_lines (episodes_file w))) (file_lines (episodes_file w')) =
             file_lines (episodes_file w) \<and>
           prefix (episodes_file w) (episodes_file w') \<and>
           map parse_episode (drop (length (file_lines (episodes_file w)))
                                   (file_lines (episodes_file w'))) = map Some calls \<and>
           complete_lines (episodes_file w')"
proof -
  from append_episodes_returns [OF assms(1)] obtain w' where
    r: "append_episodes w calls = Inr w'" by blast
  let ?new = "map (\<lambda>(uid, summary). json_dumps_episode uid summary) calls"
  from append_episodes_lines [OF r assms(2)] have
    l: "file_lines (episodes_file w') = file_lines (episodes_file w) @ ?new"
    and p: "prefix (episodes_file w) (episodes_file w')"
    and c: "complete_lines (episodes_file w')"
    by simp_all
  have "map parse_episode ?new = map Some calls"
    by (induction calls) (auto simp: parse_episode_dumps)
  then show ?thesis using r l p c by simp
qed

text \<open>
  The theorem on a log that already holds one line, and two calls, the second with a
  summary of two lines and a quoted word: the log has three lines afterwards, and the two
  new ones read back as the two calls.
\<close>

theorem append_episodes_log_witness:
  "\<exists>w'. append_episodes
          (empty_world\<lparr>episodes_file := json_dumps_episode ''u0'' ''Earlier'' @ [CHR 0x0A]\<rparr>)
          [(''u1'', ''Hello''), (''u1'', ''Line 1'' @ [CHR 0x0A] @ ''Line 2 '' @ [CHR 0x22] @ ''x'' @ [CHR 0x22])]
        = Inr w' \<and>
     length (file_lines (episodes_file w')) = 3 \<and>
     map parse_episode (drop 1 (file_lines (episodes_file w'))) =
       [Some (''u1'', ''Hello''),
        Some (''u1'', ''Line 1'' @ [CHR 0x0A] @ ''Line 2 '' @ [CHR 0x22] @ ''x'' @ [CHR 0x22])]"
proof -
  let ?w = "empty_world\<lparr>episodes_file := json_dumps_episode ''u0'' ''Earlier'' @ [CHR 0x0A]\<rparr>"
  have wr: "writable ?w" by simp
  have cl: "complete_lines (episodes_file ?w)"
    by (simp add: complete_lines_def)
  have n: "file_lines (episodes_file ?w) = [json_dumps_episode ''u0'' ''Earlier'']"
    by (simp add: file_lines_one newline_dumps_episode)
  let ?calls = "[(''u1'', ''Hello''),
                 (''u1'', ''Line 1'' @ [CHR 0x0A] @ ''Line 2 '' @ [CHR 0x22] @ ''x'' @ [CHR 0x22])]"
  from append_episodes_log [OF wr cl, of ?calls] obtain w' where
    r: "append_episodes ?w ?calls = Inr w'" and
    len: "length (file_lines (episodes_file w')) =
            length (file_lines (episodes_file ?w)) + length ?calls" and
    p: "map parse_episode (drop (length (file_lines (episodes_file ?w)))
                                (file_lines (episodes_file w'))) = map Some ?calls"
    by blast
  have "length (file_lines (episodes_file w')) = 3"
    using len by (simp only: n) simp
  moreover have "map parse_episode (drop 1 (file_lines (episodes_file w'))) = map Some ?calls"
    using p by (simp only: n) simp
  ultimately show ?thesis using r by auto
qed

end
